theory Spec2Isabelle
  imports Main "HOL-Library.Char_ord" "HOL-Library.List_Lexorder" "HOL-Library.Product_Lexorder"
    "HOL-Library.Multiset" "HOL-Library.Sublist" "HOL-Library.Code_Target_Nat"
begin

section \<open>Characters and the string helpers of the Python library\<close>

text \<open>
  A Python \<open>str\<close> is modelled as a \<open>string\<close>; a character stands for its code point,
  restricted to the first 256 code points.  The functions of this section model the
  library calls the program makes on strings: \<open>str.lower\<close>, \<open>str.strip\<close>,
  \<open>str.splitlines\<close>, \<open>str.endswith\<close>, \<open>os.path.splitext\<close>, \<open>os.path.join\<close>.
\<close>

definition code :: "char \<Rightarrow> nat" where
  "code c = of_char c"

definition lower_char :: "char \<Rightarrow> char" where
  \<comment> \<open>\<open>str.lower\<close> on one character: A-Z, and the capital letters 0xC0-0xDE but 0xD7.\<close>
  "lower_char c =
     (if (65 \<le> code c \<and> code c \<le> 90) \<or> (192 \<le> code c \<and> code c \<le> 222 \<and> code c \<noteq> 215)
      then char_of (code c + 32) else c)"

definition lower :: "string \<Rightarrow> string" where
  "lower s = map lower_char s"

definition is_ascii_alnum :: "char \<Rightarrow> bool" where
  "is_ascii_alnum c =
     ((48 \<le> code c \<and> code c \<le> 57) \<or> (65 \<le> code c \<and> code c \<le> 90) \<or> (97 \<le> code c \<and> code c \<le> 122))"

definition is_space :: "char \<Rightarrow> bool" where
  \<comment> \<open>\<open>str.isspace\<close> on one character\<close>
  "is_space c = ((9 \<le> code c \<and> code c \<le> 13) \<or> (28 \<le> code c \<and> code c \<le> 32) \<or> code c = 133 \<or> code c = 160)"

definition strip :: "string \<Rightarrow> string" where
  "strip s = rev (dropWhile is_space (rev (dropWhile is_space s)))"

definition is_linebreak :: "char \<Rightarrow> bool" where
  \<comment> \<open>the line boundaries of \<open>str.splitlines\<close>\<close>
  "is_linebreak c = ((10 \<le> code c \<and> code c \<le> 13) \<or> (28 \<le> code c \<and> code c \<le> 30) \<or> code c = 133)"

fun split_from :: "string \<Rightarrow> string \<Rightarrow> string list" where
  \<comment> \<open>\<open>cur\<close> holds the characters of the current line, last one first\<close>
  "split_from cur [] = (if cur = [] then [] else [rev cur])"
| "split_from cur [c] = (if is_linebreak c then [rev cur] else [rev (c # cur)])"
| "split_from cur (c # d # cs) =
     (if c = CHR 0x0D \<and> d = CHR 0x0A then rev cur # split_from [] cs
      else if is_linebreak c then rev cur # split_from [] (d # cs)
      else split_from (c # cur) (d # cs))"

definition splitlines :: "string \<Rightarrow> string list" where
  "splitlines text = split_from [] text"

definition endswith :: "string \<Rightarrow> string \<Rightarrow> bool" where
  "endswith s ending = (length ending \<le> length s \<and> drop (length s - length ending) s = ending)"

definition splitext :: "string \<Rightarrow> string \<times> string" where
  \<comment> \<open>\<open>os.path.splitext\<close>: the extension starts at the last dot of the last path component,
      unless only dots come before it in that component\<close>
  "splitext p =
     (let base = rev (takeWhile (\<lambda>c. c \<noteq> CHR ''/'') (rev p));
          rest = dropWhile (\<lambda>c. c = CHR ''.'') base;
          ext = (if CHR ''.'' \<in> set rest then CHR ''.'' # rev (takeWhile (\<lambda>c. c \<noteq> CHR ''.'') (rev rest)) else [])
      in (take (length p - length ext) p, ext))"

definition join :: "string \<Rightarrow> string \<Rightarrow> string" where
  \<comment> \<open>\<open>os.path.join\<close> of two components\<close>
  "join a b =
     (if b \<noteq> [] \<and> hd b = CHR ''/'' then b
      else if a = [] \<or> last a = CHR ''/'' then a @ b
      else a @ ''/'' @ b)"

definition hex_digit :: "nat \<Rightarrow> char" where
  "hex_digit n = (if n < 10 then char_of (48 + n) else char_of (55 + n))"

definition percent_byte :: "nat \<Rightarrow> string" where
  "percent_byte b = [CHR ''%'', hex_digit (b div 16), hex_digit (b mod 16)]"

definition quote_char :: "char \<Rightarrow> string" where
  \<comment> \<open>\<open>urllib.parse.quote\<close> on one character, \<open>safe='/'\<close>: the UTF-8 bytes, percent-encoded\<close>
  "quote_char c =
     (if is_ascii_alnum c \<or> c \<in> set ''_.-~/'' then [c]
      else if code c < 128 then percent_byte (code c)
      else percent_byte (192 + code c div 64) @ percent_byte (128 + code c mod 64))"

definition quote :: "string \<Rightarrow> string" where
  "quote s = concat (map quote_char s)"

section \<open>The matcher: \<open>re.escape\<close>, \<open>re.compile\<close> with \<open>re.IGNORECASE\<close>, \<open>pattern.search\<close>\<close>

text \<open>
  Both search functions build their matcher the same way:
  \<^verbatim>\<open>escaped_sentence = re.escape(search_sentence)\<close>,
  \<^verbatim>\<open>pattern = re.compile(escaped_sentence, re.IGNORECASE)\<close>, and test a line with
  \<^verbatim>\<open>pattern.search(line)\<close>.  The regular-expression library works on the code points of
  a \<open>str\<close>, so it is modelled on lists of code points of any size.  It is modelled for the
  fragment made of literal characters, backslash escapes of non-alphanumeric characters,
  the wildcard \<open>.\<close> and the postfix operators \<open>*\<close>, \<open>+\<close>, \<open>?\<close>; any other construct makes
  \<open>re_parse\<close> return \<open>None\<close>.
\<close>

definition codes :: "string \<Rightarrow> nat list" where
  "codes s = map code s"

definition backslash :: char where
  "backslash = CHR 0x5C"

definition special_chars :: "char list" where
  \<comment> \<open>the characters \<open>re.escape\<close> puts a backslash before\<close>
  "special_chars = ''()[]{}?*+-|^$'' @ [backslash] @ ''.&~# '' @ [CHR 0x09, CHR 0x0A, CHR 0x0D, CHR 0x0B, CHR 0x0C]"

fun re_escape :: "nat list \<Rightarrow> nat list" where
  "re_escape [] = []"
| "re_escape (c # cs) =
     (if c \<in> set (codes special_chars) then code backslash # c # re_escape cs else c # re_escape cs)"

datatype atom = Lit nat | AnyChar

datatype quant = Once | Star | Plus | Opt

type_synonym regex = "(atom \<times> quant) list"

definition unsupported_chars :: "char list" where
  \<comment> \<open>pattern syntax outside the modelled fragment\<close>
  "unsupported_chars = ''()[{|^$''"

definition is_alnum_code :: "nat \<Rightarrow> bool" where
  "is_alnum_code n = ((48 \<le> n \<and> n \<le> 57) \<or> (65 \<le> n \<and> n \<le> 90) \<or> (97 \<le> n \<and> n \<le> 122))"

fun parse_atom :: "nat list \<Rightarrow> (atom \<times> nat list) option" where
  "parse_atom [] = None"
| "parse_atom (c # cs) =
     (if c = code backslash then
        (case cs of [] \<Rightarrow> None
         | d # ds \<Rightarrow> if is_alnum_code d then None else Some (Lit d, ds))
      else if c = code CHR ''.'' then Some (AnyChar, cs)
      else if c \<in> set (codes ''*+?'') \<or> c \<in> set (codes unsupported_chars) then None
      else Some (Lit c, cs))"

fun take_quant :: "nat list \<Rightarrow> quant \<times> nat list" where
  "take_quant [] = (Once, [])"
| "take_quant (c # cs) =
     (if c = code CHR ''*'' then (Star, cs)
      else if c = code CHR ''+'' then (Plus, cs)
      else if c = code CHR ''?'' then (Opt, cs)
      else (Once, c # cs))"

function re_parse :: "nat list \<Rightarrow> regex option" where
  "re_parse s =
     (if s = [] then Some []
      else case parse_atom s of
             None \<Rightarrow> None
           | Some (a, rest) \<Rightarrow>
               (case take_quant rest of
                  (q, rest') \<Rightarrow> map_option (\<lambda>r. (a, q) # r) (re_parse rest')))"
  by pat_completeness auto
termination
proof (relation "measure length")
  show "wf (measure length)" by simp
next
  fix s :: "nat list" and x2 x y q rest'
  assume a: "s \<noteq> []" "parse_atom s = Some x2" "(x, y) = x2" "(q, rest') = take_quant y"
  have "length y < length s"
    using a(2,3) by (cases s) (auto split: if_splits list.splits)
  moreover have "length rest' \<le> length y"
    using a(4) by (cases y) (auto split: if_splits)
  ultimately show "(rest', s) \<in> measure length" by simp
qed

text \<open>
  Under \<open>re.IGNORECASE\<close> the compiler and the engine compare a literal of the pattern with a
  character of the line through the simple case mappings of the Unicode database
  (\<open>_sre.unicode_tolower\<close>, and the upper-case mapping inside \<open>_sre.unicode_iscased\<close>) and
  through the table \<open>_EXTRA_CASES\<close> of the library.  The two mappings are data of the
  interpreter, not of the program: they are a parameter of the matcher.
\<close>

record casing =
  tolower :: "nat \<Rightarrow> nat"
  toupper :: "nat \<Rightarrow> nat"

definition EXTRA_CASES :: "(nat \<times> nat list) list" where
  \<comment> \<open>\<open>re._casefix._EXTRA_CASES\<close>: for a lower-case code point, the other lower-case code
      points that have the same upper case\<close>
  "EXTRA_CASES =
     [(0x0069, [0x0131]), (0x0073, [0x017f]), (0x00b5, [0x03bc]), (0x0131, [0x0069]), (0x017f, [0x0073]),
      (0x0345, [0x03b9, 0x1fbe]), (0x0390, [0x1fd3]), (0x03b0, [0x1fe3]), (0x03b2, [0x03d0]),
      (0x03b5, [0x03f5]), (0x03b8, [0x03d1]), (0x03b9, [0x0345, 0x1fbe]), (0x03ba, [0x03f0]),
      (0x03bc, [0x00b5]), (0x03c0, [0x03d6]), (0x03c1, [0x03f1]), (0x03c2, [0x03c3]), (0x03c3, [0x03c2]),
      (0x03c6, [0x03d5]), (0x03d0, [0x03b2]), (0x03d1, [0x03b8]), (0x03d5, [0x03c6]), (0x03d6, [0x03c0]),
      (0x03f0, [0x03ba]), (0x03f1, [0x03c1]), (0x03f5, [0x03b5]), (0x0432, [0x1c80]), (0x0434, [0x1c81]),
      (0x043e, [0x1c82]), (0x0441, [0x1c83]), (0x0442, [0x1c84, 0x1c85]), (0x044a, [0x1c86]),
      (0x0463, [0x1c87]), (0x1c80, [0x0432]), (0x1c81, [0x0434]), (0x1c82, [0x043e]), (0x1c83, [0x0441]),
      (0x1c84, [0x0442, 0x1c85]), (0x1c85, [0x0442, 0x1c84]), (0x1c86, [0x044a]), (0x1c87, [0x0463]),
      (0x1c88, [0xa64b]), (0x1e61, [0x1e9b]), (0x1e9b, [0x1e61]), (0x1fbe, [0x0345, 0x03b9]),
      (0x1fd3, [0x0390]), (0x1fe3, [0x03b0]), (0xa64b, [0x1c88]), (0xfb05, [0xfb06]), (0xfb06, [0xfb05])]"

definition iscased :: "casing \<Rightarrow> nat \<Rightarrow> bool" where
  \<comment> \<open>\<open>_sre.unicode_iscased\<close>: the code point differs from its lower case or from its upper case\<close>
  "iscased tb ch = (\<not> (ch = tolower tb ch \<and> ch = toupper tb ch))"

definition literal_ignore :: "casing \<Rightarrow> nat \<Rightarrow> nat \<Rightarrow> bool" where
  \<comment> \<open>a literal \<open>lit\<close> of the pattern against a character \<open>ch\<close> of the line: an uncased literal
      is compiled to \<open>LITERAL\<close>, a cased one to \<open>LITERAL_UNI_IGNORE\<close> on its lower case, or to
      \<open>IN_UNI_IGNORE\<close> on its lower case and the extra cases of it\<close>
  "literal_ignore tb lit ch =
     (if \<not> iscased tb lit then ch = lit
      else (let lo = tolower tb lit
            in case map_of EXTRA_CASES lo of
                 None \<Rightarrow> tolower tb ch = lo
               | Some extra \<Rightarrow> tolower tb ch \<in> set (lo # extra)))"

definition atom_ok :: "casing \<Rightarrow> atom \<Rightarrow> nat \<Rightarrow> bool" where
  \<comment> \<open>one pattern item against one character, under \<open>re.IGNORECASE\<close> and without \<open>re.DOTALL\<close>\<close>
  "atom_ok tb a c = (case a of Lit p \<Rightarrow> literal_ignore tb p c | AnyChar \<Rightarrow> c \<noteq> code CHR 0x0A)"

fun match_here :: "casing \<Rightarrow> regex \<Rightarrow> nat list \<Rightarrow> bool" where
  "match_here tb [] s = True"
| "match_here tb ((a, Once) # r) [] = False"
| "match_here tb ((a, Once) # r) (c # cs) = (atom_ok tb a c \<and> match_here tb r cs)"
| "match_here tb ((a, Opt) # r) [] = match_here tb r []"
| "match_here tb ((a, Opt) # r) (c # cs) = ((atom_ok tb a c \<and> match_here tb r cs) \<or> match_here tb r (c # cs))"
| "match_here tb ((a, Star) # r) [] = match_here tb r []"
| "match_here tb ((a, Star) # r) (c # cs) =
     ((atom_ok tb a c \<and> match_here tb ((a, Star) # r) cs) \<or> match_here tb r (c # cs))"
| "match_here tb ((a, Plus) # r) [] = False"
| "match_here tb ((a, Plus) # r) (c # cs) = (atom_ok tb a c \<and> match_here tb ((a, Star) # r) cs)"

fun re_search :: "casing \<Rightarrow> regex \<Rightarrow> nat list \<Rightarrow> bool" where
  "re_search tb r [] = match_here tb r []"
| "re_search tb r (c # cs) = (match_here tb r (c # cs) \<or> re_search tb r cs)"

definition compile_pattern :: "nat list \<Rightarrow> regex option" where
  \<comment> \<open>\<open>re.compile(re.escape(search_sentence), re.IGNORECASE)\<close>\<close>
  "compile_pattern sentence = re_parse (re_escape sentence)"

definition phrase_search :: "casing \<Rightarrow> nat list \<Rightarrow> nat list \<Rightarrow> bool option" where
  \<comment> \<open>the truth value of \<open>pattern.search(line)\<close> for the pattern of a phrase; \<open>None\<close> when the
      pattern does not compile\<close>
  "phrase_search tb sentence line = map_option (\<lambda>r. re_search tb r line) (compile_pattern sentence)"

text \<open>
  The simple case mappings of the Unicode database on the code points below 256 and on the
  code points above that are case partners of these (U+0130, U+0131, U+0178, U+017F,
  U+039C, U+03BC, U+1E9E, U+212A, U+212B).  Every other code point is left unchanged by
  this table, which therefore is the database's only on the code points named.  The
  strings of the program's model hold code points below 256.
\<close>

definition basic_tolower :: "nat \<Rightarrow> nat" where
  "basic_tolower n =
     (if (65 \<le> n \<and> n \<le> 90) \<or> (192 \<le> n \<and> n \<le> 222 \<and> n \<noteq> 215) then n + 32
      else if n = 0x130 then 0x69
      else if n = 0x178 then 0xFF
      else if n = 0x39C then 0x3BC
      else if n = 0x1E9E then 0xDF
      else if n = 0x212A then 0x6B
      else if n = 0x212B then 0xE5
      else n)"

definition basic_toupper :: "nat \<Rightarrow> nat" where
  "basic_toupper n =
     (if (97 \<le> n \<and> n \<le> 122) \<or> (224 \<le> n \<and> n \<le> 254 \<and> n \<noteq> 247) then n - 32
      else if n = 0xB5 then 0x39C
      else if n = 0xDF then 0x53
      else if n = 0xFF then 0x178
      else if n = 0x131 then 0x49
      else if n = 0x17F then 0x53
      else if n = 0x3BC then 0x39C
      else n)"

definition basic_casing :: casing where
  "basic_casing = \<lparr>tolower = basic_tolower, toupper = basic_toupper\<rparr>"

definition pattern_search :: "regex \<Rightarrow> string \<Rightarrow> bool" where
  \<comment> \<open>\<open>pattern.search(line)\<close> on a line of the program's model\<close>
  "pattern_search pattern line = re_search basic_casing pattern (codes line)"

definition line_matches :: "string \<Rightarrow> string \<Rightarrow> bool option" where
  \<comment> \<open>the truth value of \<open>pattern.search(line)\<close> for the pattern of a phrase, in the program's
      model\<close>
  "line_matches sentence line = phrase_search basic_casing (codes sentence) (codes line)"

section \<open>Data model\<close>

text \<open>
  An occurrence is the dictionary the search functions append: the text pipeline writes the
  keys \<open>file_path\<close>, \<open>line_number\<close>, \<open>line_content\<close>; the PDF pipeline also writes
  \<open>page_number\<close>.  An absent key is \<open>None\<close>.
\<close>

record occurrence =
  file_path :: string
  page_number :: "nat option"
  line_number :: nat
  line_content :: string

datatype error = ReError

text \<open>What the program prints, one constructor for each \<open>print\<close> or \<open>sys.stdout.write\<close>.\<close>

datatype message =
    ErrFolderNotFound string
  | MsgSearchingText string "string list" string
  | MsgCountingFiles
  | MsgFoundFiles nat
  | MsgNoFilesMatching
  | MsgProgress nat nat string
  | ErrReading string string
  | MsgNewline
  | WarnPdftotextMissing string
  | WarnPdfUnreadable string
  | ErrPyPDF2Unexpected string string
  | ErrPdftotextFailed string string
  | ErrPdfUnexpected string string
  | MsgSearchingPdf string string
  | MsgNoPdfFiles
  | MsgFoundPdfFiles nat
  | MsgPdfProcessed nat nat
  | ErrPdfTask
  | ErrEmptySentence
  | ErrEmptyDirectory
  | MsgResultsHeader
  | MsgItem string
  | MsgSummary nat
  | MsgNoMatches

text \<open>
  The world the program reads.  Opening and iterating a text file yields some lines and may
  then raise; \<open>OpenError\<close> is the exception of \<open>open\<close> itself.  Running \<open>pdftotext\<close> either
  raises \<open>FileNotFoundError\<close> (the tool is not installed), \<open>CalledProcessError\<close>, another
  exception, or returns the text of its standard output.  \<open>PyPDF2\<close> either fails before the
  first page (\<open>open\<close>, \<open>PdfReader\<close>, \<open>len(reader.pages)\<close>) or gives the pages, each of which
  extracts to a text or raises.
\<close>

datatype text_source = OpenError string | Content "string list" "string option"

datatype tool_result = ToolMissing | ToolFailed string | ToolRaised string | ToolOutput string

datatype pdf_error = PdfReadError | OtherError string

datatype page = PageText string | PageError pdf_error

datatype reader_result = ReaderError pdf_error | Pages "page list"

record environment =
  isdir :: "string \<Rightarrow> bool"
  walk :: "string \<Rightarrow> (string \<times> string list) list"
  open_text :: "string \<Rightarrow> text_source"
  pdftotext :: "string \<Rightarrow> tool_result"
  PdfReader :: "string \<Rightarrow> reader_result"

section \<open>\<open>search_text_files\<close>\<close>

definition wanted :: "string list \<Rightarrow> string \<Rightarrow> bool" where
  \<comment> \<open>\<open>file_extension.lower() in file_extensions_to_search\<close>\<close>
  "wanted exts file_name = (lower (snd (splitext file_name)) \<in> set exts)"

definition count_files :: "string list \<Rightarrow> (string \<times> string list) list \<Rightarrow> nat" where
  \<comment> \<open>the first pass\<close>
  "count_files exts w =
     fold (\<lambda>(root, files) total_files. fold (\<lambda>file_name total_files. if wanted exts file_name then total_files + 1 else total_files) files total_files) w 0"

fun scan_lines :: "regex \<Rightarrow> string \<Rightarrow> nat \<Rightarrow> string list \<Rightarrow> occurrence list" where
  \<comment> \<open>\<open>for line_num, line in enumerate(f, line_num)\<close>\<close>
  "scan_lines pattern fp line_num [] = []"
| "scan_lines pattern fp line_num (line # rest) =
     (if pattern_search pattern line
      then [\<lparr>file_path = fp, page_number = None, line_number = line_num, line_content = strip line\<rparr>]
      else []) @ scan_lines pattern fp (Suc line_num) rest"

definition read_text_file :: "regex \<Rightarrow> string \<Rightarrow> text_source \<Rightarrow> occurrence list \<times> message list" where
  \<comment> \<open>the \<open>try\<close> block of the second pass: the occurrences appended and the error written\<close>
  "read_text_file pattern fp src =
     (case src of
        OpenError e \<Rightarrow> ([], [ErrReading fp e])
      | Content ls None \<Rightarrow> (scan_lines pattern fp 1 ls, [])
      | Content ls (Some e) \<Rightarrow> (scan_lines pattern fp 1 ls, [ErrReading fp e]))"

record text_state =
  processed_files_count :: nat
  found_occurrences :: "occurrence list"
  printed :: "message list"

definition visit_file ::
  "environment \<Rightarrow> regex \<Rightarrow> string list \<Rightarrow> nat \<Rightarrow> string \<Rightarrow> string \<Rightarrow> text_state \<Rightarrow> text_state" where
  "visit_file env pattern exts total_files root file_name st =
     (if wanted exts file_name then
        (let n = processed_files_count st + 1;
             fp = join root file_name;
             r = read_text_file pattern fp (open_text env fp)
         in \<lparr>processed_files_count = n,
             found_occurrences = found_occurrences st @ fst r,
             printed = printed st @ [MsgProgress n total_files (take 50 file_name)] @ snd r\<rparr>)
      else st)"

definition second_pass ::
  "environment \<Rightarrow> regex \<Rightarrow> string list \<Rightarrow> nat \<Rightarrow> (string \<times> string list) list \<Rightarrow> text_state" where
  "second_pass env pattern exts total_files w =
     fold (\<lambda>(root, files) st. fold (visit_file env pattern exts total_files root) files st) w
       \<lparr>processed_files_count = 0, found_occurrences = [], printed = []\<rparr>"

definition search_text_files ::
  "environment \<Rightarrow> string \<Rightarrow> string \<Rightarrow> string list \<Rightarrow> error + (message list \<times> occurrence list)" where
  "search_text_files env folder_path search_sentence exts =
     (case compile_pattern (codes search_sentence) of
        None \<Rightarrow> Inl ReError
      | Some pattern \<Rightarrow>
          if \<not> isdir env folder_path then Inr ([ErrFolderNotFound folder_path], [])
          else
            (let total_files = count_files exts (walk env folder_path);
                 intro = [MsgSearchingText search_sentence exts folder_path, MsgCountingFiles, MsgFoundFiles total_files]
             in if total_files = 0 then Inr (intro @ [MsgNoFilesMatching], [])
                else (let st = second_pass env pattern exts total_files (walk env folder_path)
                      in Inr (intro @ printed st @ [MsgNewline], found_occurrences st))))"

section \<open>\<open>_search_single_pdf\<close> and \<open>search_pdfs\<close>\<close>

fun scan_pdf_lines :: "regex \<Rightarrow> string \<Rightarrow> nat \<Rightarrow> nat \<Rightarrow> string list \<Rightarrow> occurrence list" where
  \<comment> \<open>\<open>for line_idx, line in enumerate(lines, line_idx)\<close>, on page \<open>pg\<close>\<close>
  "scan_pdf_lines pattern fp pg line_idx [] = []"
| "scan_pdf_lines pattern fp pg line_idx (line # rest) =
     (if pattern_search pattern line
      then [\<lparr>file_path = fp, page_number = Some pg, line_number = line_idx, line_content = strip line\<rparr>]
      else []) @ scan_pdf_lines pattern fp pg (Suc line_idx) rest"

fun scan_pages :: "regex \<Rightarrow> string \<Rightarrow> nat \<Rightarrow> page list \<Rightarrow> occurrence list \<times> pdf_error option" where
  \<comment> \<open>\<open>for page_num in range(len(reader.pages))\<close>, from \<open>page_num\<close> on; stops at the first exception\<close>
  "scan_pages pattern fp page_num [] = ([], None)"
| "scan_pages pattern fp page_num (PageError e # ps) = ([], Some e)"
| "scan_pages pattern fp page_num (PageText text # ps) =
     (let here = (if text \<noteq> [] then scan_pdf_lines pattern fp (page_num + 1) 1 (splitlines text) else []);
          r = scan_pages pattern fp (Suc page_num) ps
      in (here @ fst r, snd r))"

definition pdf_error_message :: "string \<Rightarrow> pdf_error \<Rightarrow> message" where
  "pdf_error_message fp e = (case e of PdfReadError \<Rightarrow> WarnPdfUnreadable fp | OtherError m \<Rightarrow> ErrPyPDF2Unexpected fp m)"

definition pypdf2_fallback :: "environment \<Rightarrow> regex \<Rightarrow> string \<Rightarrow> message list \<times> occurrence list" where
  "pypdf2_fallback env pattern fp =
     (case PdfReader env fp of
        ReaderError e \<Rightarrow> ([pdf_error_message fp e], [])
      | Pages ps \<Rightarrow>
          (case scan_pages pattern fp 0 ps of
             (occs, None) \<Rightarrow> ([], occs)
           | (occs, Some e) \<Rightarrow> ([pdf_error_message fp e], occs)))"

definition pdf_try_block :: "environment \<Rightarrow> regex \<Rightarrow> string \<Rightarrow> message list \<times> occurrence list" where
  \<comment> \<open>the outer \<open>try\<close> of \<open>_search_single_pdf\<close>: what it writes and the \<open>file_occurrences\<close> it leaves\<close>
  "pdf_try_block env pattern filepath =
     (case pdftotext env filepath of
        ToolOutput text \<Rightarrow>
          ([], if text \<noteq> [] then scan_pdf_lines pattern filepath 0 1 (splitlines text) else [])
      | ToolMissing \<Rightarrow>
          (let r = pypdf2_fallback env pattern filepath
           in (WarnPdftotextMissing filepath # fst r, snd r))
      | ToolFailed e \<Rightarrow> ([ErrPdftotextFailed filepath e], [])
      | ToolRaised e \<Rightarrow> ([ErrPdfUnexpected filepath e], []))"

definition search_single_pdf :: "environment \<Rightarrow> string \<Rightarrow> string \<Rightarrow> error + (message list \<times> occurrence list)" where
  "search_single_pdf env filepath search_term =
     (case compile_pattern (codes search_term) of
        None \<Rightarrow> Inl ReError
      | Some pattern \<Rightarrow> Inr (pdf_try_block env pattern filepath))"

definition pdf_files :: "(string \<times> string list) list \<Rightarrow> string list" where
  \<comment> \<open>\<open>pdf_files_to_process\<close>\<close>
  "pdf_files w = concat (map (\<lambda>(root, files). map (join root) (filter (\<lambda>file_name. endswith (lower file_name) ''.pdf'') files)) w)"

text \<open>
  The tasks run in worker processes: what a worker writes reaches the terminal at a time
  the scheduler decides, so the lines of the workers are kept as a multiset, apart from the
  lines the main process writes in order.  The results are collected in submission order.
\<close>

fun collect ::
  "environment \<Rightarrow> string \<Rightarrow> nat \<Rightarrow> nat \<Rightarrow> string list \<Rightarrow> message list \<times> message multiset \<times> occurrence list" where
  \<comment> \<open>\<open>for i, future in enumerate(futures)\<close>, from \<open>i\<close> on; \<open>n\<close> is \<open>len(pdf_files_to_process)\<close>\<close>
  "collect env search_term n i [] = ([], {#}, [])"
| "collect env search_term n i (filepath # rest) =
     (let r = collect env search_term n (Suc i) rest
      in case search_single_pdf env filepath search_term of
           Inl e \<Rightarrow> (ErrPdfTask # fst r, fst (snd r), snd (snd r))
         | Inr (msgs, occs) \<Rightarrow>
             (MsgPdfProcessed (i + 1) n # fst r, mset msgs + fst (snd r), occs @ snd (snd r)))"

definition search_pdfs ::
  "environment \<Rightarrow> string \<Rightarrow> string \<Rightarrow> message list \<times> message multiset \<times> occurrence list" where
  "search_pdfs env folder_path search_term =
     (if \<not> isdir env folder_path then ([ErrFolderNotFound folder_path], {#}, [])
      else
        (let pdf_files_to_process = pdf_files (walk env folder_path)
         in if pdf_files_to_process = []
            then ([MsgSearchingPdf search_term folder_path, MsgNoPdfFiles], {#}, [])
            else (let r = collect env search_term (length pdf_files_to_process) 0 pdf_files_to_process
                  in ([MsgSearchingPdf search_term folder_path, MsgFoundPdfFiles (length pdf_files_to_process)]
                        @ fst r @ [MsgNewline], fst (snd r), snd (snd r)))))"

definition main_lines :: "message list \<times> message multiset \<times> occurrence list \<Rightarrow> message list" where
  \<comment> \<open>what the main process wrote, in order\<close>
  "main_lines r = fst r"

definition worker_lines :: "message list \<times> message multiset \<times> occurrence list \<Rightarrow> message multiset" where
  \<comment> \<open>what the workers wrote\<close>
  "worker_lines r = fst (snd r)"

definition all_found :: "message list \<times> message multiset \<times> occurrence list \<Rightarrow> occurrence list" where
  \<comment> \<open>\<open>all_found_occurrences\<close>\<close>
  "all_found r = snd (snd r)"

section \<open>The main program: validation, aggregation, report\<close>

definition COLOR_MAP :: "(string \<times> string) list" where
  "COLOR_MAP =
     [(''.html'', ''32''), (''.htm'', ''32''), (''.css'', ''34''), (''.js'', ''31''), (''.py'', ''36''),
      (''.md'', ''35''), (''.txt'', ''37''), (''.xml'', ''31''), (''.json'', ''31''), (''.log'', ''33''),
      (''.csv'', ''37''), (''.sh'', ''36''), (''.yml'', ''35''), (''.yaml'', ''35''), (''.conf'', ''34''),
      (''.pdf'', ''33'')]"

definition ESC :: char where
  "ESC = CHR 0x1B"

definition RESET_COLOR :: string where
  "RESET_COLOR = ESC # ''[0m''"

definition extensions :: "string list" where
  "extensions =
     [''.html'', ''.htm'', ''.txt'', ''.css'', ''.js'', ''.py'', ''.md'', ''.xml'', ''.json'', ''.log'',
      ''.csv'', ''.sh'', ''.yml'', ''.yaml'', ''.conf'', ''.pdf'']"

definition page_or_zero :: "occurrence \<Rightarrow> nat" where
  \<comment> \<open>\<open>x.get('page_number', 0)\<close>\<close>
  "page_or_zero x = (case page_number x of None \<Rightarrow> 0 | Some p \<Rightarrow> p)"

definition sort_key_of :: "occurrence \<Rightarrow> string \<times> nat \<times> nat" where
  \<comment> \<open>\<open>lambda x: (x['file_path'], x.get('page_number', 0), x['line_number'])\<close>\<close>
  "sort_key_of x = (file_path x, page_or_zero x, line_number x)"

definition sort_results :: "occurrence list \<Rightarrow> occurrence list" where
  \<comment> \<open>\<open>all_results.sort(key=...)\<close>; Python's sort is stable, as \<open>sort_key\<close> is\<close>
  "sort_results all_results = sort_key sort_key_of all_results"

definition hyperlink :: "occurrence \<Rightarrow> string" where
  \<comment> \<open>the line printed for one item; \<open>line_num\<close> and \<open>page_info\<close> are computed by the source
      and not used in what it prints\<close>
  "hyperlink item =
     (let f_path = file_path item;
          color_code = (case map_of COLOR_MAP (lower (snd (splitext f_path))) of None \<Rightarrow> ''37'' | Some c \<Rightarrow> c);
          colored_f_path = ESC # ''['' @ color_code @ ''m'' @ f_path @ RESET_COLOR;
          encoded_path = quote f_path
      in ESC # '']8;;file://'' @ encoded_path @ [ESC, backslash] @ colored_f_path @ ESC # '']8;;'' @ [ESC, backslash])"

definition report :: "occurrence list \<Rightarrow> message list" where
  "report all_results =
     (if all_results \<noteq> []
      then MsgResultsHeader # map (\<lambda>item. MsgItem (hyperlink item)) (sort_results all_results)
             @ [MsgSummary (length all_results)]
      else [MsgNoMatches])"

definition main :: "environment \<Rightarrow> string \<Rightarrow> string \<Rightarrow> error + (message list \<times> message multiset)" where
  \<comment> \<open>what the run prints: the lines of the main process in order, and the lines of the workers\<close>
  "main env sentence_to_find folder_to_search =
     (if strip sentence_to_find = [] then Inr ([ErrEmptySentence], {#})
      else if strip folder_to_search = [] then Inr ([ErrEmptyDirectory], {#})
      else
        (case search_text_files env folder_to_search sentence_to_find (filter (\<lambda>ext. ext \<noteq> ''.pdf'') extensions) of
           Inl e \<Rightarrow> Inl e
         | Inr (out_text, text_file_results) \<Rightarrow>
             (case search_pdfs env folder_to_search sentence_to_find of
                (out_pdf, out_workers, pdf_file_results) \<Rightarrow>
                  Inr (out_text @ out_pdf @ report (text_file_results @ pdf_file_results), out_workers))))"

section \<open>Notions used to state the properties\<close>

definition literal_items :: "nat list \<Rightarrow> regex" where
  \<comment> \<open>the pattern that matches the code points of a phrase, each as itself\<close>
  "literal_items sentence = map (\<lambda>c. (Lit c, Once)) sentence"

definition literals :: "string \<Rightarrow> regex" where
  "literals sentence = literal_items (codes sentence)"

definition casefold_code :: "nat \<Rightarrow> nat list" where
  \<comment> \<open>\<open>str.casefold\<close> on one of the code points of \<open>basic_casing\<close>; it may give two code points\<close>
  "casefold_code n =
     (if n = 0xDF \<or> n = 0x1E9E then [0x73, 0x73]
      else if n = 0xB5 then [0x3BC]
      else if n = 0x17F then [0x73]
      else if n = 0x130 then [0x69, 0x307]
      else [basic_tolower n])"

definition casefold :: "nat list \<Rightarrow> nat list" where
  "casefold s = concat (map casefold_code s)"

definition selected_files :: "string list \<Rightarrow> (string \<times> string list) list \<Rightarrow> string list" where
  \<comment> \<open>the enumerator of the text pipeline: the paths of the files of a walk whose
      lower-cased extension is in the filter, in walk order\<close>
  "selected_files exts w = concat (map (\<lambda>(root, files). map (join root) (filter (wanted exts) files)) w)"

definition is_read_error :: "message \<Rightarrow> bool" where
  "is_read_error m = (case m of ErrReading fp e \<Rightarrow> True | _ \<Rightarrow> False)"

definition is_missing_warning :: "message \<Rightarrow> bool" where
  "is_missing_warning m = (case m of WarnPdftotextMissing fp \<Rightarrow> True | _ \<Rightarrow> False)"

definition page_texts :: "regex \<Rightarrow> string \<Rightarrow> string list \<Rightarrow> occurrence list" where
  \<comment> \<open>the occurrences of pages that all extract, numbered from page 1\<close>
  "page_texts pattern fp texts = fst (scan_pages pattern fp 0 (map PageText texts))"

fun readable_texts :: "page list \<Rightarrow> string list" where
  \<comment> \<open>the texts of the pages that come before the first page that raises\<close>
  "readable_texts [] = []"
| "readable_texts (PageError e # ps) = []"
| "readable_texts (PageText body # ps) = body # readable_texts ps"

fun first_error :: "page list \<Rightarrow> pdf_error option" where
  "first_error [] = None"
| "first_error (PageError e # ps) = Some e"
| "first_error (PageText body # ps) = first_error ps"

section \<open>Example inputs\<close>

definition LF :: char where
  "LF = CHR 0x0A"

definition FF :: char where
  "FF = CHR 0x0C"

text \<open>
  A tree \<open>/r\<close> on a machine without \<open>pdftotext\<close>: two text files read without error, one that
  fails after its first line, one that cannot be opened; a PDF of two pages, a PDF whose
  second page does not extract, and a PDF that \<open>PyPDF2\<close> cannot open.
\<close>

definition demo_env :: environment where
  "demo_env =
     \<lparr>isdir = (\<lambda>p. p = ''/r''),
      walk = (\<lambda>p. if p = ''/r''
                    then [(''/r'', [''a.txt'', ''b.md'', ''c.pdf'', ''notes.bin'']),
                          (''/r/sub'', [''d.PDF'', ''e.txt'', ''f.log'', ''g.pdf''])]
                    else []),
      open_text = (\<lambda>p. if p = ''/r/a.txt'' then Content [''x'' @ [LF], ''  Hello World '' @ [LF]] None
                         else if p = ''/r/b.md'' then Content [''nothing here''] None
                         else if p = ''/r/sub/e.txt'' then Content [''hello world'' @ [LF]] (Some ''Input/output error'')
                         else OpenError ''Permission denied''),
      pdftotext = (\<lambda>p. ToolMissing),
      PdfReader = (\<lambda>p. if p = ''/r/c.pdf''
                         then Pages [PageText (''a'' @ [LF] @ ''b'' @ [LF] @ ''c'' @ [LF] @ ''hello world order''),
                                     PageText ''Hello World'']
                         else if p = ''/r/sub/d.PDF'' then Pages [PageText ''hello world'', PageError PdfReadError]
                         else ReaderError PdfReadError)\<rparr>"

text \<open>The same tree with \<open>pdftotext\<close> installed; it fails on \<open>d.PDF\<close> and \<open>g.pdf\<close>.\<close>

definition tool_env :: environment where
  "tool_env =
     demo_env\<lparr>pdftotext := (\<lambda>p. if p = ''/r/c.pdf''
                                   then ToolOutput (''a'' @ [LF] @ ''hello world'' @ [LF, FF] @ ''Hello World'' @ [LF])
                                   else if p = ''/r/sub/d.PDF'' then ToolFailed ''exit status 1''
                                   else ToolRaised ''Permission denied'')\<rparr>"

text \<open>Results as the two pipelines may return them, unsorted and with a tie.\<close>

definition example_text_results :: "occurrence list" where
  "example_text_results =
     [\<lparr>file_path = ''/r/b.txt'', page_number = None, line_number = 2, line_content = ''x''\<rparr>,
      \<lparr>file_path = ''/r/B.txt'', page_number = None, line_number = 9, line_content = ''y''\<rparr>]"

definition example_pdf_results :: "occurrence list" where
  "example_pdf_results =
     [\<lparr>file_path = ''/r/a.pdf'', page_number = Some 2, line_number = 1, line_content = ''x''\<rparr>,
      \<lparr>file_path = ''/r/a.pdf'', page_number = Some 1, line_number = 5, line_content = ''y''\<rparr>,
      \<lparr>file_path = ''/r/a.pdf'', page_number = Some 1, line_number = 5, line_content = ''first''\<rparr>]"

text \<open>A tree whose only file is named \<open>.pdf\<close>, on a machine without \<open>pdftotext\<close>.\<close>

definition dotfile_env :: environment where
  "dotfile_env =
     demo_env\<lparr>walk := (\<lambda>p. if p = ''/r'' then [(''/r'', [''.pdf''])] else []),
              PdfReader := (\<lambda>p. Pages [PageText ''hello world''])\<rparr>"

definition eszett :: char where
  "eszett = CHR 0xDF"

section \<open>Properties of the matcher\<close>

declare re_parse.simps [simp del]

lemma literal_items_simps:
  "literal_items [] = []" "literal_items (c # p) = (Lit c, Once) # literal_items p"
  by (simp_all add: literal_items_def)

lemma re_parse_Nil: "re_parse [] = Some []"
  by (subst re_parse.simps) simp

lemma special_codes:
  "set (codes special_chars) = {40, 41, 91, 93, 123, 125, 63, 42, 43, 45, 124, 94, 36, 92, 46, 38, 126, 35, 32, 9, 10, 13, 11, 12}"
  by (simp add: codes_def special_chars_def code_def backslash_def)

lemma syntax_codes:
  "code backslash = 92" "code CHR ''.'' = 46" "code CHR ''*'' = 42" "code CHR ''+'' = 43" "code CHR ''?'' = 63"
  "set (codes ''*+?'') = {42, 43, 63}" "set (codes unsupported_chars) = {40, 41, 91, 123, 124, 94, 36}"
  by (simp_all add: codes_def unsupported_chars_def code_def backslash_def)

lemma special_not_alnum: "c \<in> set (codes special_chars) \<Longrightarrow> \<not> is_alnum_code c"
  by (auto simp: special_codes is_alnum_code_def)

lemma take_quant_escape: "take_quant (re_escape p) = (Once, re_escape p)"
  by (cases p) (auto simp: special_codes syntax_codes)

lemma parse_atom_special:
  "c \<in> set (codes special_chars) \<Longrightarrow> parse_atom (code backslash # c # rest) = Some (Lit c, rest)"
  by (simp add: special_not_alnum)

lemma parse_atom_plain:
  "c \<notin> set (codes special_chars) \<Longrightarrow> parse_atom (c # rest) = Some (Lit c, rest)"
  by (auto simp: special_codes syntax_codes)

lemma re_parse_escape: "re_parse (re_escape p) = Some (literal_items p)"
proof (induction p)
  case Nil
  show ?case by (simp add: re_parse_Nil literal_items_simps)
next
  case (Cons c p)
  show ?case
  proof (cases "c \<in> set (codes special_chars)")
    case True
    have "re_parse (code backslash # c # re_escape p) = map_option (\<lambda>r. (Lit c, Once) # r) (re_parse (re_escape p))"
      by (subst re_parse.simps) (simp add: parse_atom_special [OF True] take_quant_escape del: parse_atom.simps)
    then show ?thesis using True Cons.IH by (simp add: literal_items_simps)
  next
    case False
    have "re_parse (c # re_escape p) = map_option (\<lambda>r. (Lit c, Once) # r) (re_parse (re_escape p))"
      by (subst re_parse.simps) (simp add: parse_atom_plain [OF False] take_quant_escape del: parse_atom.simps)
    then show ?thesis using False Cons.IH by (simp add: literal_items_simps)
  qed
qed

lemma match_here_literals:
  "match_here tb (literal_items p) s \<longleftrightarrow> (\<exists>mid suf. s = mid @ suf \<and> list_all2 (literal_ignore tb) p mid)"
proof (induction p arbitrary: s)
  case Nil
  show ?case by (simp add: literal_items_simps)
next
  case (Cons c p)
  show ?case
  proof (cases s)
    case Nil
    then show ?thesis by (simp add: literal_items_simps)
  next
    case (Cons d ds)
    have "(\<exists>mid suf. d # ds = mid @ suf \<and> list_all2 (literal_ignore tb) (c # p) mid) \<longleftrightarrow>
          literal_ignore tb c d \<and> (\<exists>mid suf. ds = mid @ suf \<and> list_all2 (literal_ignore tb) p mid)"
      by (auto simp: list_all2_Cons1 Cons_eq_append_conv)
    then show ?thesis
      using Cons Cons.IH [of ds] by (simp add: literal_items_simps atom_ok_def)
  qed
qed

lemma re_search_literals:
  "re_search tb (literal_items p) s \<longleftrightarrow>
     (\<exists>pre mid suf. s = pre @ mid @ suf \<and> list_all2 (literal_ignore tb) p mid)"
proof (induction s)
  case Nil
  show ?case by (simp add: match_here_literals)
next
  case (Cons d ds)
  have "(\<exists>pre mid suf. d # ds = pre @ mid @ suf \<and> list_all2 (literal_ignore tb) p mid) \<longleftrightarrow>
        (\<exists>mid suf. d # ds = mid @ suf \<and> list_all2 (literal_ignore tb) p mid) \<or>
        (\<exists>pre mid suf. ds = pre @ mid @ suf \<and> list_all2 (literal_ignore tb) p mid)"
  proof
    assume "\<exists>pre mid suf. d # ds = pre @ mid @ suf \<and> list_all2 (literal_ignore tb) p mid"
    then obtain pre mid suf where e: "d # ds = pre @ mid @ suf" and m: "list_all2 (literal_ignore tb) p mid"
      by blast
    show "(\<exists>mid suf. d # ds = mid @ suf \<and> list_all2 (literal_ignore tb) p mid) \<or>
        (\<exists>pre mid suf. ds = pre @ mid @ suf \<and> list_all2 (literal_ignore tb) p mid)"
    proof (cases pre)
      case Nil
      with e m show ?thesis by auto
    next
      case (Cons x xs)
      with e have "ds = xs @ mid @ suf" by simp
      with m show ?thesis by blast
    qed
  next
    assume "(\<exists>mid suf. d # ds = mid @ suf \<and> list_all2 (literal_ignore tb) p mid) \<or>
        (\<exists>pre mid suf. ds = pre @ mid @ suf \<and> list_all2 (literal_ignore tb) p mid)"
    then show "\<exists>pre mid suf. d # ds = pre @ mid @ suf \<and> list_all2 (literal_ignore tb) p mid"
    proof
      assume "\<exists>mid suf. d # ds = mid @ suf \<and> list_all2 (literal_ignore tb) p mid"
      then obtain mid suf where "d # ds = [] @ mid @ suf" and "list_all2 (literal_ignore tb) p mid"
        by auto
      then show ?thesis by blast
    next
      assume "\<exists>pre mid suf. ds = pre @ mid @ suf \<and> list_all2 (literal_ignore tb) p mid"
      then obtain pre mid suf where "ds = pre @ mid @ suf" and m: "list_all2 (literal_ignore tb) p mid"
        by blast
      then have "d # ds = (d # pre) @ mid @ suf" by simp
      with m show ?thesis by blast
    qed
  qed
  then show ?case using Cons.IH by (simp add: match_here_literals)
qed

lemma compile_pattern_literal_items: "compile_pattern sentence = Some (literal_items sentence)"
  by (simp add: compile_pattern_def re_parse_escape)

lemma compile_pattern_literals: "compile_pattern (codes sentence) = Some (literals sentence)"
  by (simp add: compile_pattern_literal_items literals_def)

lemma line_matches_literals: "line_matches sentence line = Some (pattern_search (literals sentence) line)"
  by (simp add: line_matches_def phrase_search_def compile_pattern_literals pattern_search_def)

text \<open>
  C1 (as amended).  For every line \<open>L\<close> and every phrase \<open>P\<close>, whatever the case mappings of the
  interpreter are, the pattern of the escaped phrase compiles, and searching \<open>L\<close> with it
  succeeds exactly when \<open>L\<close> contains a run of characters, as long as \<open>P\<close>, each of which
  equals the character of \<open>P\<close> at its place under the engine's comparison of one literal
  with one character.  Every character of the phrase, a regex-special one included, is
  matched as itself; no folding of one character to several is applied.
\<close>

theorem matcher_literal_ignoring_case:
  "phrase_search tb P L =
     Some (\<exists>pre mid suf. L = pre @ mid @ suf \<and> list_all2 (literal_ignore tb) P mid)"
  by (simp add: phrase_search_def compile_pattern_literal_items re_search_literals)

lemmas matcher_eval =
  phrase_search_def compile_pattern_literal_items literal_items_def codes_def code_def atom_ok_def
  literal_ignore_def iscased_def basic_casing_def basic_tolower_def basic_toupper_def EXTRA_CASES_def

theorem matcher_literal_ignoring_case_witness:
  "(\<exists>pre mid suf. codes ''xA.B*Cy'' = pre @ mid @ suf \<and>
      list_all2 (literal_ignore basic_casing) (codes ''a.b*c'') mid) \<and>
   \<not> (\<exists>pre mid suf. codes ''axbyc'' = pre @ mid @ suf \<and>
      list_all2 (literal_ignore basic_casing) (codes ''a.b*c'') mid) \<and>
   (\<exists>pre mid suf. [0x17F] = pre @ mid @ suf \<and> list_all2 (literal_ignore basic_casing) (codes ''s'') mid)"
proof -
  have yes: "phrase_search basic_casing (codes ''a.b*c'') (codes ''xA.B*Cy'') = Some True"
    by (simp add: matcher_eval)
  have no: "phrase_search basic_casing (codes ''a.b*c'') (codes ''axbyc'') = Some False"
    by (simp add: matcher_eval)
  have long_s: "phrase_search basic_casing (codes ''s'') [0x17F] = Some True"
    by (simp add: matcher_eval)
  show ?thesis
    using matcher_literal_ignoring_case [of basic_casing "codes ''a.b*c''" "codes ''xA.B*Cy''"]
      matcher_literal_ignoring_case [of basic_casing "codes ''a.b*c''" "codes ''axbyc''"]
      matcher_literal_ignoring_case [of basic_casing "codes ''s''" "[0x17F]"] yes no long_s
    by simp
qed

theorem case_folding_is_not_applied:
  "line_matches ''ss'' (''Stra'' @ [eszett] @ ''e'') = Some False \<and>
   sublist (casefold (codes ''ss'')) (casefold (codes (''Stra'' @ [eszett] @ ''e'')))"
proof
  show "line_matches ''ss'' (''Stra'' @ [eszett] @ ''e'') = Some False"
    by (simp add: line_matches_def matcher_eval eszett_def)
  have "casefold (codes ''ss'') = [115, 115]"
    by (simp add: casefold_def casefold_code_def codes_def code_def basic_tolower_def)
  moreover have "casefold (codes (''Stra'' @ [eszett] @ ''e'')) = [115, 116, 114, 97] @ [115, 115] @ [101]"
    by (simp add: casefold_def casefold_code_def codes_def code_def basic_tolower_def eszett_def)
  ultimately show "sublist (casefold (codes ''ss'')) (casefold (codes (''Stra'' @ [eszett] @ ''e'')))"
    by (simp only: sublist_appendI)
qed

section \<open>Properties of the aggregation\<close>

lemma sort_key_le_iff:
  "sort_key_of a \<le> sort_key_of b \<longleftrightarrow>
     file_path a < file_path b \<or>
     (file_path a = file_path b \<and>
       (page_or_zero a < page_or_zero b \<or> (page_or_zero a = page_or_zero b \<and> line_number a \<le> line_number b)))"
  by (auto simp: sort_key_of_def less_eq_prod_def)

text \<open>
  C2.  In the sorted list of the text results followed by the PDF results, an occurrence that
  comes before another has a key that is less or equal in the lexicographic order of
  (file path, page number or 0, line number); and the sort is stable: the occurrences of one
  key keep the order they had in the concatenation.
\<close>

theorem aggregate_sorted_stable:
  "(\<forall>i j. i < j \<and> j < length (sort_results (text_results @ pdf_results)) \<longrightarrow>
      (let a = sort_results (text_results @ pdf_results) ! i;
           b = sort_results (text_results @ pdf_results) ! j
       in file_path a < file_path b \<or>
          (file_path a = file_path b \<and>
            (page_or_zero a < page_or_zero b \<or>
              (page_or_zero a = page_or_zero b \<and> line_number a \<le> line_number b))))) \<and>
   (\<forall>k. filter (\<lambda>x. sort_key_of x = k) (sort_results (text_results @ pdf_results)) =
        filter (\<lambda>x. sort_key_of x = k) (text_results @ pdf_results))"
proof (intro conjI allI impI)
  fix i j
  let ?out = "sort_results (text_results @ pdf_results)"
  assume ij: "i < j \<and> j < length ?out"
  have "sorted (map sort_key_of ?out)"
    by (simp add: sort_results_def)
  moreover have "i < j" "j < length (map sort_key_of ?out)"
    using ij by simp_all
  ultimately have "map sort_key_of ?out ! i \<le> map sort_key_of ?out ! j"
    by (simp only: sorted_iff_nth_mono_less)
  then have "sort_key_of (?out ! i) \<le> sort_key_of (?out ! j)"
    using ij by simp
  then show "let a = ?out ! i; b = ?out ! j
       in file_path a < file_path b \<or>
          (file_path a = file_path b \<and>
            (page_or_zero a < page_or_zero b \<or>
              (page_or_zero a = page_or_zero b \<and> line_number a \<le> line_number b)))"
    by (simp add: sort_key_le_iff Let_def)
next
  fix k
  show "filter (\<lambda>x. sort_key_of x = k) (sort_results (text_results @ pdf_results)) =
        filter (\<lambda>x. sort_key_of x = k) (text_results @ pdf_results)"
    by (simp only: sort_results_def sort_key_stable)
qed

theorem aggregate_sorted_stable_witness:
  "(0 :: nat) < 3 \<and> 3 < length (sort_results (example_text_results @ example_pdf_results)) \<and>
   map line_content (sort_results (example_text_results @ example_pdf_results))
     = [''y'', ''y'', ''first'', ''x'', ''x''] \<and>
   (let a = sort_results (example_text_results @ example_pdf_results) ! 0;
        b = sort_results (example_text_results @ example_pdf_results) ! 3
    in file_path a < file_path b \<or>
       (file_path a = file_path b \<and>
         (page_or_zero a < page_or_zero b \<or>
           (page_or_zero a = page_or_zero b \<and> line_number a \<le> line_number b))))"
proof -
  have len: "(0 :: nat) < 3 \<and> 3 < length (sort_results (example_text_results @ example_pdf_results))"
    by (simp add: sort_results_def example_text_results_def example_pdf_results_def)
  have order: "map line_content (sort_results (example_text_results @ example_pdf_results))
     = [''y'', ''y'', ''first'', ''x'', ''x'']"
    by code_simp
  from aggregate_sorted_stable [of example_text_results example_pdf_results]
  have "\<forall>i j. i < j \<and> j < length (sort_results (example_text_results @ example_pdf_results)) \<longrightarrow>
      (let a = sort_results (example_text_results @ example_pdf_results) ! i;
           b = sort_results (example_text_results @ example_pdf_results) ! j
       in file_path a < file_path b \<or>
          (file_path a = file_path b \<and>
            (page_or_zero a < page_or_zero b \<or>
              (page_or_zero a = page_or_zero b \<and> line_number a \<le> line_number b))))"
    by (rule conjunct1)
  then have "0 < (3 :: nat) \<and> 3 < length (sort_results (example_text_results @ example_pdf_results)) \<longrightarrow>
      (let a = sort_results (example_text_results @ example_pdf_results) ! 0;
           b = sort_results (example_text_results @ example_pdf_results) ! 3
       in file_path a < file_path b \<or>
          (file_path a = file_path b \<and>
            (page_or_zero a < page_or_zero b \<or>
              (page_or_zero a = page_or_zero b \<and> line_number a \<le> line_number b))))"
    by blast
  with len order show ?thesis by blast
qed

section \<open>Properties of the text pipeline\<close>

lemma count_dir:
  "fold (\<lambda>file_name t. if wanted exts file_name then t + 1 else t) files n
     = n + length (filter (wanted exts) files)"
  by (induction files arbitrary: n) auto

lemma count_walk:
  "fold (\<lambda>(root, files) t. fold (\<lambda>file_name t. if wanted exts file_name then t + 1 else t) files t) w n
     = n + length (selected_files exts w)"
proof (induction w arbitrary: n)
  case Nil
  show ?case by (simp add: selected_files_def)
next
  case (Cons d w)
  obtain root files where d: "d = (root, files)" by (cases d)
  show ?case
    using Cons.IH by (simp add: d count_dir selected_files_def)
qed

lemma count_files_selected: "count_files exts w = length (selected_files exts w)"
  by (simp add: count_files_def count_walk)

lemma read_errors_only: "filter is_read_error (snd (read_text_file pattern fp src)) = snd (read_text_file pattern fp src)"
  by (auto simp: read_text_file_def is_read_error_def split: text_source.splits option.splits)

lemma progress_not_read_error: "\<not> is_read_error (MsgProgress n tot name)"
  by (simp add: is_read_error_def)

lemma visit_file_wanted:
  "wanted exts f \<Longrightarrow>
   visit_file env pattern exts tot root f st =
     \<lparr>processed_files_count = processed_files_count st + 1,
      found_occurrences = found_occurrences st @ fst (read_text_file pattern (join root f) (open_text env (join root f))),
      printed = printed st @ [MsgProgress (processed_files_count st + 1) tot (take 50 f)]
                  @ snd (read_text_file pattern (join root f) (open_text env (join root f)))\<rparr>"
  by (simp add: visit_file_def Let_def)

lemma visit_file_skipped: "\<not> wanted exts f \<Longrightarrow> visit_file env pattern exts tot root f st = st"
  by (simp add: visit_file_def)

lemma visit_dir:
  "processed_files_count (fold (visit_file env pattern exts tot root) files st)
     = processed_files_count st + length (filter (wanted exts) files) \<and>
   found_occurrences (fold (visit_file env pattern exts tot root) files st)
     = found_occurrences st
       @ concat (map (\<lambda>fp. fst (read_text_file pattern fp (open_text env fp)))
                   (map (join root) (filter (wanted exts) files))) \<and>
   filter is_read_error (printed (fold (visit_file env pattern exts tot root) files st))
     = filter is_read_error (printed st)
       @ concat (map (\<lambda>fp. snd (read_text_file pattern fp (open_text env fp)))
                   (map (join root) (filter (wanted exts) files)))"
proof (induction files arbitrary: st)
  case Nil
  show ?case by simp
next
  case (Cons f files)
  show ?case
  proof (cases "wanted exts f")
    case True
    then show ?thesis
      using Cons.IH [of "visit_file env pattern exts tot root f st"]
      by (simp add: visit_file_wanted read_errors_only progress_not_read_error)
  next
    case False
    then show ?thesis
      using Cons.IH [of st] by (simp add: visit_file_skipped)
  qed
qed

lemma visit_walk:
  "processed_files_count (fold (\<lambda>(root, files) st. fold (visit_file env pattern exts tot root) files st) w st)
     = processed_files_count st + length (selected_files exts w) \<and>
   found_occurrences (fold (\<lambda>(root, files) st. fold (visit_file env pattern exts tot root) files st) w st)
     = found_occurrences st
       @ concat (map (\<lambda>fp. fst (read_text_file pattern fp (open_text env fp))) (selected_files exts w)) \<and>
   filter is_read_error (printed (fold (\<lambda>(root, files) st. fold (visit_file env pattern exts tot root) files st) w st))
     = filter is_read_error (printed st)
       @ concat (map (\<lambda>fp. snd (read_text_file pattern fp (open_text env fp))) (selected_files exts w))"
proof (induction w arbitrary: st)
  case Nil
  show ?case by (simp add: selected_files_def)
next
  case (Cons d w)
  obtain root files where d: "d = (root, files)" by (cases d)
  have sel: "selected_files exts ((root, files) # w) = map (join root) (filter (wanted exts) files) @ selected_files exts w"
    by (simp add: selected_files_def)
  show ?case
    using Cons.IH [of "fold (visit_file env pattern exts tot root) files st"]
      visit_dir [of env pattern exts tot root files st]
    by (simp add: d sel)
qed

lemma second_pass_fields:
  "processed_files_count (second_pass env pattern exts tot w) = length (selected_files exts w)"
  "found_occurrences (second_pass env pattern exts tot w)
     = concat (map (\<lambda>fp. fst (read_text_file pattern fp (open_text env fp))) (selected_files exts w))"
  "filter is_read_error (printed (second_pass env pattern exts tot w))
     = concat (map (\<lambda>fp. snd (read_text_file pattern fp (open_text env fp))) (selected_files exts w))"
  using visit_walk [of env pattern exts tot w "\<lparr>processed_files_count = 0, found_occurrences = [], printed = []\<rparr>"]
  by (simp_all add: second_pass_def)

lemma search_text_files_result:
  assumes "isdir env folder"
  shows "\<exists>out. search_text_files env folder sentence exts
           = Inr (out, concat (map (\<lambda>fp. fst (read_text_file (literals sentence) fp (open_text env fp)))
                                (selected_files exts (walk env folder)))) \<and>
         filter is_read_error out
           = concat (map (\<lambda>fp. snd (read_text_file (literals sentence) fp (open_text env fp)))
                       (selected_files exts (walk env folder)))"
proof (cases "count_files exts (walk env folder) = 0")
  case True
  then have "selected_files exts (walk env folder) = []"
    by (simp add: count_files_selected)
  then show ?thesis
    using assms True
    by (simp add: search_text_files_def compile_pattern_literals Let_def is_read_error_def)
next
  case False
  then show ?thesis
    using assms
    by (simp add: search_text_files_def compile_pattern_literals Let_def is_read_error_def second_pass_fields)
qed

lemma search_text_files_no_dir:
  "\<not> isdir env folder \<Longrightarrow> search_text_files env folder sentence exts = Inr ([ErrFolderNotFound folder], [])"
  by (simp add: search_text_files_def compile_pattern_literals)

section \<open>Properties of the PDF pipeline\<close>

lemma upt_Suc_shift: "[0..<Suc k] = 0 # map Suc [0..<k]"
  by (subst upt_conv_Cons) (simp_all add: map_Suc_upt del: upt_Suc)

lemma scan_lines_index:
  "scan_lines pattern fp n ls =
     map (\<lambda>i. \<lparr>file_path = fp, page_number = None, line_number = n + i, line_content = strip (ls ! i)\<rparr>)
       (filter (\<lambda>i. pattern_search pattern (ls ! i)) [0..<length ls])"
proof (induction ls arbitrary: n)
  case Nil
  show ?case by simp
next
  case (Cons l ls)
  show ?case
    by (simp add: Cons.IH [of "Suc n"] upt_Suc_shift filter_map comp_def del: upt_Suc)
qed

lemma scan_pdf_lines_index:
  "scan_pdf_lines pattern fp pg n ls =
     map (\<lambda>i. \<lparr>file_path = fp, page_number = Some pg, line_number = n + i, line_content = strip (ls ! i)\<rparr>)
       (filter (\<lambda>i. pattern_search pattern (ls ! i)) [0..<length ls])"
proof (induction ls arbitrary: n)
  case Nil
  show ?case by simp
next
  case (Cons l ls)
  show ?case
    by (simp add: Cons.IH [of "Suc n"] upt_Suc_shift filter_map comp_def del: upt_Suc)
qed

lemma sorted_filter_upt: "sorted_wrt (<) (map (\<lambda>i. n + i) (filter P [0..<k]))"
proof -
  have "sorted_wrt (<) (filter P [0..<k])"
    by (rule sorted_wrt_filter) simp
  then show ?thesis
    by (simp add: sorted_wrt_map)
qed

lemma scan_lines_increasing: "sorted_wrt (<) (map line_number (scan_lines pattern fp n ls))"
  using sorted_filter_upt [of n "\<lambda>i. pattern_search pattern (ls ! i)" "length ls"]
  by (simp add: scan_lines_index comp_def)

lemma scan_lines_member:
  "x \<in> set (scan_lines pattern fp n ls) \<Longrightarrow>
     file_path x = fp \<and> page_number x = None \<and> n \<le> line_number x \<and> line_number x < n + length ls"
  by (auto simp: scan_lines_index)

lemma scan_pdf_lines_increasing: "sorted_wrt (<) (map line_number (scan_pdf_lines pattern fp pg n ls))"
  using sorted_filter_upt [of n "\<lambda>i. pattern_search pattern (ls ! i)" "length ls"]
  by (simp add: scan_pdf_lines_index comp_def)

lemma scan_pdf_lines_member:
  "x \<in> set (scan_pdf_lines pattern fp pg n ls) \<Longrightarrow>
     file_path x = fp \<and> page_number x = Some pg \<and> n \<le> line_number x \<and> line_number x < n + length ls"
  by (auto simp: scan_pdf_lines_index)

lemma sorted_filter_upt_page: "sorted_wrt (<) (map (\<lambda>i. (pg :: nat, n + i)) (filter P [0..<k]))"
proof -
  have "sorted_wrt (<) (filter P [0..<k])"
    by (rule sorted_wrt_filter) simp
  then show ?thesis
    by (simp add: sorted_wrt_map)
qed

lemma scan_pdf_lines_ordered:
  "sorted_wrt (<) (map (\<lambda>x. (page_or_zero x, line_number x)) (scan_pdf_lines pattern fp pg n ls))"
  using sorted_filter_upt_page [of pg n "\<lambda>i. pattern_search pattern (ls ! i)" "length ls"]
  by (simp add: scan_pdf_lines_index comp_def page_or_zero_def)

lemma scan_pages_member:
  "x \<in> set (fst (scan_pages pattern fp n ps)) \<Longrightarrow>
     file_path x = fp \<and> (\<exists>pg. page_number x = Some pg \<and> n < pg \<and> pg \<le> n + length ps) \<and> 1 \<le> line_number x"
proof (induction pattern fp n ps rule: scan_pages.induct)
  case (1 pattern fp page_num)
  then show ?case by simp
next
  case (2 pattern fp page_num e ps)
  then show ?case by simp
next
  case (3 pattern fp page_num body ps)
  from "3.prems" have "x \<in> set (scan_pdf_lines pattern fp (page_num + 1) 1 (splitlines body))
      \<or> x \<in> set (fst (scan_pages pattern fp (Suc page_num) ps))"
    by (auto simp: Let_def split: if_splits)
  then show ?case
  proof
    assume "x \<in> set (scan_pdf_lines pattern fp (page_num + 1) 1 (splitlines body))"
    from scan_pdf_lines_member [OF this] show ?thesis by auto
  next
    assume "x \<in> set (fst (scan_pages pattern fp (Suc page_num) ps))"
    from "3.IH" [OF refl this] show ?thesis by auto
  qed
qed

lemma scan_pages_ordered:
  "sorted_wrt (<) (map (\<lambda>x. (page_or_zero x, line_number x)) (fst (scan_pages pattern fp n ps)))"
proof (induction pattern fp n ps rule: scan_pages.induct)
  case (1 pattern fp page_num)
  show ?case by simp
next
  case (2 pattern fp page_num e ps)
  show ?case by simp
next
  case (3 pattern fp page_num body ps)
  let ?here = "scan_pdf_lines pattern fp (page_num + 1) 1 (splitlines body)"
  let ?rest = "fst (scan_pages pattern fp (Suc page_num) ps)"
  have cross: "(page_or_zero a, line_number a) < (page_or_zero b, line_number b)"
    if "a \<in> set ?here" "b \<in> set ?rest" for a b
    using scan_pdf_lines_member [OF that(1)] scan_pages_member [OF that(2)]
    by (auto simp: page_or_zero_def less_prod_def)
  have "sorted_wrt (<) (map (\<lambda>x. (page_or_zero x, line_number x)) (?here @ ?rest))"
    using scan_pdf_lines_ordered [of pattern fp "page_num + 1" 1 "splitlines body"] "3.IH" [OF refl] cross
    by (simp add: sorted_wrt_append)
  moreover have "splitlines [] = []" by (simp add: splitlines_def)
  ultimately show ?case
    by (cases "body = []") (simp_all add: Let_def "3.IH" [OF refl])
qed

lemma scan_pages_texts:
  "scan_pages pattern fp n (map PageText texts) =
     (concat (map (\<lambda>k. scan_pdf_lines pattern fp (n + k + 1) 1 (splitlines (texts ! k))) [0..<length texts]), None)"
proof (induction texts arbitrary: n)
  case Nil
  show ?case by simp
next
  case (Cons t texts)
  have "splitlines [] = []" by (simp add: splitlines_def)
  then show ?case
    by (cases "t = []") (simp_all add: Cons.IH [of "Suc n"] upt_Suc_shift Let_def comp_def del: upt_Suc)
qed

lemma scan_pages_failure:
  "scan_pages pattern fp n (map PageText texts @ PageError e # rest) =
     (fst (scan_pages pattern fp n (map PageText texts)), Some e)"
  by (induction texts arbitrary: n) (simp_all add: Let_def)

lemma fallback_occurrences:
  "snd (pypdf2_fallback env pattern fp) =
     (case PdfReader env fp of ReaderError e \<Rightarrow> [] | Pages ps \<Rightarrow> fst (scan_pages pattern fp 0 ps))"
  by (simp add: pypdf2_fallback_def split: reader_result.splits prod.splits option.splits)

lemma fallback_member:
  assumes "x \<in> set (snd (pypdf2_fallback env pattern fp))"
  shows "file_path x = fp \<and> 1 \<le> line_number x"
proof (cases "PdfReader env fp")
  case (ReaderError e)
  then show ?thesis using assms by (simp add: fallback_occurrences)
next
  case (Pages ps)
  then have "x \<in> set (fst (scan_pages pattern fp 0 ps))"
    using assms by (simp add: fallback_occurrences)
  from scan_pages_member [OF this] show ?thesis by simp
qed

lemma fallback_ordered:
  "sorted_wrt (<) (map (\<lambda>x. (page_or_zero x, line_number x)) (snd (pypdf2_fallback env pattern fp)))"
  by (cases "PdfReader env fp") (simp_all add: fallback_occurrences scan_pages_ordered)

lemma pdf_try_block_member:
  "x \<in> set (snd (pdf_try_block env pattern fp)) \<Longrightarrow> file_path x = fp \<and> 1 \<le> line_number x"
proof (cases "pdftotext env fp")
  case ToolMissing
  assume "x \<in> set (snd (pdf_try_block env pattern fp))"
  then have "x \<in> set (snd (pypdf2_fallback env pattern fp))"
    using ToolMissing by (simp add: pdf_try_block_def Let_def)
  from fallback_member [OF this] show ?thesis .
next
  case (ToolFailed e)
  assume "x \<in> set (snd (pdf_try_block env pattern fp))"
  then show ?thesis using ToolFailed by (simp add: pdf_try_block_def)
next
  case (ToolRaised e)
  assume "x \<in> set (snd (pdf_try_block env pattern fp))"
  then show ?thesis using ToolRaised by (simp add: pdf_try_block_def)
next
  case (ToolOutput body)
  assume "x \<in> set (snd (pdf_try_block env pattern fp))"
  then have "x \<in> set (scan_pdf_lines pattern fp 0 1 (splitlines body))"
    using ToolOutput by (simp add: pdf_try_block_def split: if_splits)
  from scan_pdf_lines_member [OF this] show ?thesis by simp
qed

lemma pdf_try_block_ordered:
  "sorted_wrt (<) (map (\<lambda>x. (page_or_zero x, line_number x)) (snd (pdf_try_block env pattern fp)))"
proof (cases "pdftotext env fp")
  case ToolMissing
  then show ?thesis by (simp add: pdf_try_block_def Let_def fallback_ordered)
next
  case (ToolFailed e)
  then show ?thesis by (simp add: pdf_try_block_def)
next
  case (ToolRaised e)
  then show ?thesis by (simp add: pdf_try_block_def)
next
  case (ToolOutput body)
  then show ?thesis by (simp add: pdf_try_block_def scan_pdf_lines_ordered)
qed

lemma search_single_pdf_try: "search_single_pdf env fp phrase = Inr (pdf_try_block env (literals phrase) fp)"
  by (simp add: search_single_pdf_def compile_pattern_literals)

lemma fallback_warnings:
  "filter is_missing_warning (fst (pypdf2_fallback env pattern fp)) = []"
  by (auto simp: pypdf2_fallback_def pdf_error_message_def is_missing_warning_def
      split: reader_result.splits prod.splits option.splits pdf_error.splits)

lemma try_block_warnings:
  "filter is_missing_warning (fst (pdf_try_block env pattern fp)) =
     (if pdftotext env fp = ToolMissing then [WarnPdftotextMissing fp] else [])"
  by (cases "pdftotext env fp")
    (simp_all add: pdf_try_block_def Let_def fallback_warnings, simp_all add: is_missing_warning_def)

lemma collect_result:
  "all_found (collect env phrase n i fps)
     = concat (map (\<lambda>fp. snd (pdf_try_block env (literals phrase) fp)) fps) \<and>
   worker_lines (collect env phrase n i fps)
     = mset (concat (map (\<lambda>fp. fst (pdf_try_block env (literals phrase) fp)) fps)) \<and>
   main_lines (collect env phrase n i fps) = map (\<lambda>k. MsgPdfProcessed (i + k + 1) n) [0..<length fps]"
proof (induction fps arbitrary: i)
  case Nil
  show ?case by (simp add: all_found_def worker_lines_def main_lines_def)
next
  case (Cons fp fps)
  show ?case
    using Cons.IH [of "Suc i"]
    by (simp add: search_single_pdf_try Let_def split_def all_found_def worker_lines_def main_lines_def
        upt_Suc_shift comp_def del: upt_Suc)
qed

lemma search_pdfs_result:
  assumes "isdir env folder"
  shows "all_found (search_pdfs env folder phrase)
           = concat (map (\<lambda>fp. snd (pdf_try_block env (literals phrase) fp)) (pdf_files (walk env folder)))"
    and "worker_lines (search_pdfs env folder phrase)
           = mset (concat (map (\<lambda>fp. fst (pdf_try_block env (literals phrase) fp)) (pdf_files (walk env folder))))"
    and "filter is_missing_warning (main_lines (search_pdfs env folder phrase)) = []"
proof -
  let ?fps = "pdf_files (walk env folder)"
  note c = collect_result [of env phrase "length ?fps" 0 ?fps]
  show "all_found (search_pdfs env folder phrase)
           = concat (map (\<lambda>fp. snd (pdf_try_block env (literals phrase) fp)) ?fps)"
    using assms c by (simp add: search_pdfs_def Let_def all_found_def worker_lines_def main_lines_def)
  show "worker_lines (search_pdfs env folder phrase)
           = mset (concat (map (\<lambda>fp. fst (pdf_try_block env (literals phrase) fp)) ?fps))"
    using assms c by (simp add: search_pdfs_def Let_def all_found_def worker_lines_def main_lines_def)
  have "filter is_missing_warning (main_lines (collect env phrase (length ?fps) 0 ?fps)) = []"
    using c by (simp add: filter_empty_conv is_missing_warning_def)
  then show "filter is_missing_warning (main_lines (search_pdfs env folder phrase)) = []"
    using assms by (simp add: search_pdfs_def Let_def main_lines_def is_missing_warning_def)
qed

lemma search_pdfs_no_dir:
  "\<not> isdir env folder \<Longrightarrow> search_pdfs env folder phrase = ([ErrFolderNotFound folder], {#}, [])"
  by (simp add: search_pdfs_def)

lemma scan_pages_readable:
  "scan_pages pattern fp n ps = (fst (scan_pages pattern fp n (map PageText (readable_texts ps))), first_error ps)"
  by (induction ps arbitrary: n rule: readable_texts.induct) (simp_all add: Let_def)

lemma fallback_pages:
  "PdfReader env fp = Pages ps \<Longrightarrow>
   pypdf2_fallback env pattern fp =
     ((case first_error ps of None \<Rightarrow> [] | Some e \<Rightarrow> [pdf_error_message fp e]),
      page_texts pattern fp (readable_texts ps))"
  using scan_pages_readable [of pattern fp 0 ps]
  by (simp add: pypdf2_fallback_def page_texts_def split: prod.splits option.splits)

lemma page_texts_index:
  "page_texts pattern fp texts =
     concat (map (\<lambda>k. map (\<lambda>i. \<lparr>file_path = fp, page_number = Some (k + 1), line_number = i + 1,
                                   line_content = strip (splitlines (texts ! k) ! i)\<rparr>)
                          (filter (\<lambda>i. pattern_search pattern (splitlines (texts ! k) ! i))
                             [0..<length (splitlines (texts ! k))]))
               [0..<length texts])"
  by (simp add: page_texts_def scan_pages_texts scan_pdf_lines_index)

text \<open>
  C4.  A PDF searched through the external tool gives occurrences of page number 0 whose line
  numbers count the lines of the whole output from 1; a PDF searched through the fallback
  parser gives, for each page read, occurrences that carry the page's number counted from 1
  and a line number counted from 1 within the page.  In both cases the occurrences are
  exactly those of the matching lines, in order.
\<close>

theorem pdf_numbering:
  "(pdftotext env fp = ToolOutput body \<longrightarrow>
      search_single_pdf env fp phrase =
        Inr ([], map (\<lambda>i. \<lparr>file_path = fp, page_number = Some 0, line_number = i + 1,
                             line_content = strip (splitlines body ! i)\<rparr>)
                   (filter (\<lambda>i. line_matches phrase (splitlines body ! i) = Some True)
                      [0..<length (splitlines body)]))) \<and>
   (pdftotext env fp = ToolMissing \<and> PdfReader env fp = Pages ps \<longrightarrow>
      (\<exists>msgs. search_single_pdf env fp phrase =
        Inr (msgs,
             concat (map (\<lambda>k. map (\<lambda>i. \<lparr>file_path = fp, page_number = Some (k + 1), line_number = i + 1,
                                          line_content = strip (splitlines (readable_texts ps ! k) ! i)\<rparr>)
                                 (filter (\<lambda>i. line_matches phrase (splitlines (readable_texts ps ! k) ! i) = Some True)
                                    [0..<length (splitlines (readable_texts ps ! k))]))
                      [0..<length (readable_texts ps)]))))"
proof (intro conjI impI)
  assume tool: "pdftotext env fp = ToolOutput body"
  have "splitlines [] = []" by (simp add: splitlines_def)
  then show "search_single_pdf env fp phrase =
        Inr ([], map (\<lambda>i. \<lparr>file_path = fp, page_number = Some 0, line_number = i + 1,
                             line_content = strip (splitlines body ! i)\<rparr>)
                   (filter (\<lambda>i. line_matches phrase (splitlines body ! i) = Some True)
                      [0..<length (splitlines body)]))"
    using tool
    by (cases "body = []")
      (simp_all add: search_single_pdf_try pdf_try_block_def scan_pdf_lines_index line_matches_literals)
next
  assume fb: "pdftotext env fp = ToolMissing \<and> PdfReader env fp = Pages ps"
  then have "snd (pdf_try_block env (literals phrase) fp) = page_texts (literals phrase) fp (readable_texts ps)"
    by (simp add: pdf_try_block_def Let_def fallback_pages)
  then have "search_single_pdf env fp phrase =
      Inr (fst (pdf_try_block env (literals phrase) fp), page_texts (literals phrase) fp (readable_texts ps))"
    by (simp add: search_single_pdf_try prod_eq_iff)
  then show "\<exists>msgs. search_single_pdf env fp phrase =
        Inr (msgs,
             concat (map (\<lambda>k. map (\<lambda>i. \<lparr>file_path = fp, page_number = Some (k + 1), line_number = i + 1,
                                          line_content = strip (splitlines (readable_texts ps ! k) ! i)\<rparr>)
                                 (filter (\<lambda>i. line_matches phrase (splitlines (readable_texts ps ! k) ! i) = Some True)
                                    [0..<length (splitlines (readable_texts ps ! k))]))
                      [0..<length (readable_texts ps)]))"
    by (simp add: page_texts_index line_matches_literals)
qed


theorem pdf_numbering_witness:
  "pdftotext tool_env ''/r/c.pdf'' = ToolOutput (''a'' @ [LF] @ ''hello world'' @ [LF, FF] @ ''Hello World'' @ [LF]) \<and>
   search_single_pdf tool_env ''/r/c.pdf'' ''hello world'' =
     Inr ([], [\<lparr>file_path = ''/r/c.pdf'', page_number = Some 0, line_number = 2, line_content = ''hello world''\<rparr>,
               \<lparr>file_path = ''/r/c.pdf'', page_number = Some 0, line_number = 4, line_content = ''Hello World''\<rparr>]) \<and>
   pdftotext demo_env ''/r/c.pdf'' = ToolMissing \<and>
   PdfReader demo_env ''/r/c.pdf'' =
     Pages [PageText (''a'' @ [LF] @ ''b'' @ [LF] @ ''c'' @ [LF] @ ''hello world order''), PageText ''Hello World''] \<and>
   (\<exists>msgs. search_single_pdf demo_env ''/r/c.pdf'' ''hello world'' =
     Inr (msgs, [\<lparr>file_path = ''/r/c.pdf'', page_number = Some 1, line_number = 4, line_content = ''hello world order''\<rparr>,
                 \<lparr>file_path = ''/r/c.pdf'', page_number = Some 2, line_number = 1, line_content = ''Hello World''\<rparr>]))"
proof -
  let ?body = "''a'' @ [LF] @ ''hello world'' @ [LF, FF] @ ''Hello World'' @ [LF]"
  let ?ps = "[PageText (''a'' @ [LF] @ ''b'' @ [LF] @ ''c'' @ [LF] @ ''hello world order''), PageText ''Hello World'']"
  have tool: "pdftotext tool_env ''/r/c.pdf'' = ToolOutput ?body"
    by (simp add: tool_env_def)
  have missing: "pdftotext demo_env ''/r/c.pdf'' = ToolMissing \<and> PdfReader demo_env ''/r/c.pdf'' = Pages ?ps"
    by (simp add: demo_env_def)
  have fast: "map (\<lambda>i. \<lparr>file_path = ''/r/c.pdf'', page_number = Some 0, line_number = i + 1,
                         line_content = strip (splitlines ?body ! i)\<rparr>)
                (filter (\<lambda>i. line_matches ''hello world'' (splitlines ?body ! i) = Some True)
                   [0..<length (splitlines ?body)])
      = [\<lparr>file_path = ''/r/c.pdf'', page_number = Some 0, line_number = 2, line_content = ''hello world''\<rparr>,
         \<lparr>file_path = ''/r/c.pdf'', page_number = Some 0, line_number = 4, line_content = ''Hello World''\<rparr>]"
    by code_simp
  have slow: "concat (map (\<lambda>k. map (\<lambda>i. \<lparr>file_path = ''/r/c.pdf'', page_number = Some (k + 1), line_number = i + 1,
                                          line_content = strip (splitlines (readable_texts ?ps ! k) ! i)\<rparr>)
                                 (filter (\<lambda>i. line_matches ''hello world'' (splitlines (readable_texts ?ps ! k) ! i) = Some True)
                                    [0..<length (splitlines (readable_texts ?ps ! k))]))
                      [0..<length (readable_texts ?ps)])
      = [\<lparr>file_path = ''/r/c.pdf'', page_number = Some 1, line_number = 4, line_content = ''hello world order''\<rparr>,
         \<lparr>file_path = ''/r/c.pdf'', page_number = Some 2, line_number = 1, line_content = ''Hello World''\<rparr>]"
    by code_simp
  from pdf_numbering [of tool_env "''/r/c.pdf''" ?body "''hello world''"] tool fast
  have a: "search_single_pdf tool_env ''/r/c.pdf'' ''hello world'' =
     Inr ([], [\<lparr>file_path = ''/r/c.pdf'', page_number = Some 0, line_number = 2, line_content = ''hello world''\<rparr>,
               \<lparr>file_path = ''/r/c.pdf'', page_number = Some 0, line_number = 4, line_content = ''Hello World''\<rparr>])"
    by simp
  from pdf_numbering [of demo_env "''/r/c.pdf''" _ "''hello world''" ?ps] missing slow
  have b: "\<exists>msgs. search_single_pdf demo_env ''/r/c.pdf'' ''hello world'' =
     Inr (msgs, [\<lparr>file_path = ''/r/c.pdf'', page_number = Some 1, line_number = 4, line_content = ''hello world order''\<rparr>,
                 \<lparr>file_path = ''/r/c.pdf'', page_number = Some 2, line_number = 1, line_content = ''Hello World''\<rparr>])"
    by simp
  from tool missing a b show ?thesis by simp
qed

lemma page_texts_Nil: "page_texts pattern fp [] = []"
  by (simp add: page_texts_def)

text \<open>
  C3 (as amended).  A PDF on which the external tool fails, or for which the tool is missing
  and the fallback parser fails before its first page, gives an empty list; when the
  fallback parser fails on a page, the occurrences of the pages read before it are kept
  (none when it is the first page).  In each case one diagnostic names the failure and the
  per-file search returns normally.  The occurrences of the run are the concatenation of
  the per-file lists, so the other PDF files contribute what they would contribute alone,
  and the lines the workers write are, as a multiset, the diagnostics of all the files.
\<close>

theorem unreadable_pdf_is_soft:
  "search_single_pdf env fp phrase = Inr (pdf_try_block env (literals phrase) fp) \<and>
   (pdftotext env fp = ToolFailed e \<longrightarrow>
      pdf_try_block env (literals phrase) fp = ([ErrPdftotextFailed fp e], [])) \<and>
   (pdftotext env fp = ToolRaised e \<longrightarrow>
      pdf_try_block env (literals phrase) fp = ([ErrPdfUnexpected fp e], [])) \<and>
   (pdftotext env fp = ToolMissing \<and> PdfReader env fp = ReaderError pe \<longrightarrow>
      pdf_try_block env (literals phrase) fp = ([WarnPdftotextMissing fp, pdf_error_message fp pe], [])) \<and>
   (pdftotext env fp = ToolMissing \<and> PdfReader env fp = Pages ps \<and> first_error ps = Some pe \<longrightarrow>
      pdf_try_block env (literals phrase) fp =
        ([WarnPdftotextMissing fp, pdf_error_message fp pe], page_texts (literals phrase) fp (readable_texts ps))) \<and>
   (isdir env folder \<longrightarrow>
      all_found (search_pdfs env folder phrase) =
        concat (map (\<lambda>fp. snd (pdf_try_block env (literals phrase) fp)) (pdf_files (walk env folder))) \<and>
      worker_lines (search_pdfs env folder phrase) =
        mset (concat (map (\<lambda>fp. fst (pdf_try_block env (literals phrase) fp)) (pdf_files (walk env folder)))))"
proof (intro conjI impI)
  show "search_single_pdf env fp phrase = Inr (pdf_try_block env (literals phrase) fp)"
    by (rule search_single_pdf_try)
next
  assume "pdftotext env fp = ToolFailed e"
  then show "pdf_try_block env (literals phrase) fp = ([ErrPdftotextFailed fp e], [])"
    by (simp add: pdf_try_block_def)
next
  assume "pdftotext env fp = ToolRaised e"
  then show "pdf_try_block env (literals phrase) fp = ([ErrPdfUnexpected fp e], [])"
    by (simp add: pdf_try_block_def)
next
  assume "pdftotext env fp = ToolMissing \<and> PdfReader env fp = ReaderError pe"
  then show "pdf_try_block env (literals phrase) fp = ([WarnPdftotextMissing fp, pdf_error_message fp pe], [])"
    by (simp add: pdf_try_block_def pypdf2_fallback_def Let_def)
next
  assume a: "pdftotext env fp = ToolMissing \<and> PdfReader env fp = Pages ps \<and> first_error ps = Some pe"
  then show "pdf_try_block env (literals phrase) fp =
        ([WarnPdftotextMissing fp, pdf_error_message fp pe], page_texts (literals phrase) fp (readable_texts ps))"
    by (simp add: pdf_try_block_def Let_def fallback_pages)
next
  assume "isdir env folder"
  then show "all_found (search_pdfs env folder phrase) =
        concat (map (\<lambda>fp. snd (pdf_try_block env (literals phrase) fp)) (pdf_files (walk env folder)))"
    by (rule search_pdfs_result)
next
  assume "isdir env folder"
  then show "worker_lines (search_pdfs env folder phrase) =
        mset (concat (map (\<lambda>fp. fst (pdf_try_block env (literals phrase) fp)) (pdf_files (walk env folder))))"
    by (rule search_pdfs_result)
qed

theorem unreadable_pdf_is_soft_witness:
  "pdftotext tool_env ''/r/sub/d.PDF'' = ToolFailed ''exit status 1'' \<and>
   search_single_pdf tool_env ''/r/sub/d.PDF'' ''hello world''
     = Inr ([ErrPdftotextFailed ''/r/sub/d.PDF'' ''exit status 1''], []) \<and>
   pdftotext tool_env ''/r/sub/g.pdf'' = ToolRaised ''Permission denied'' \<and>
   search_single_pdf tool_env ''/r/sub/g.pdf'' ''hello world''
     = Inr ([ErrPdfUnexpected ''/r/sub/g.pdf'' ''Permission denied''], []) \<and>
   pdftotext demo_env ''/r/sub/g.pdf'' = ToolMissing \<and> PdfReader demo_env ''/r/sub/g.pdf'' = ReaderError PdfReadError \<and>
   search_single_pdf demo_env ''/r/sub/g.pdf'' ''hello world''
     = Inr ([WarnPdftotextMissing ''/r/sub/g.pdf'', WarnPdfUnreadable ''/r/sub/g.pdf''], []) \<and>
   pdftotext demo_env ''/r/sub/d.PDF'' = ToolMissing \<and>
   PdfReader demo_env ''/r/sub/d.PDF'' = Pages [PageText ''hello world'', PageError PdfReadError] \<and>
   first_error [PageText ''hello world'', PageError PdfReadError] = Some PdfReadError \<and>
   search_single_pdf demo_env ''/r/sub/d.PDF'' ''hello world''
     = Inr ([WarnPdftotextMissing ''/r/sub/d.PDF'', WarnPdfUnreadable ''/r/sub/d.PDF''],
            page_texts (literals ''hello world'') ''/r/sub/d.PDF'' [''hello world'']) \<and>
   isdir tool_env ''/r'' \<and>
   worker_lines (search_pdfs tool_env ''/r'' ''hello world'')
     = {#ErrPdftotextFailed ''/r/sub/d.PDF'' ''exit status 1'', ErrPdfUnexpected ''/r/sub/g.pdf'' ''Permission denied''#} \<and>
   map file_path (all_found (search_pdfs tool_env ''/r'' ''hello world'')) = [''/r/c.pdf'', ''/r/c.pdf'']"
proof -
  have h1: "pdftotext tool_env ''/r/sub/d.PDF'' = ToolFailed ''exit status 1''"
    by (simp add: tool_env_def)
  have h2: "pdftotext tool_env ''/r/sub/g.pdf'' = ToolRaised ''Permission denied''"
    by (simp add: tool_env_def)
  have h3: "pdftotext demo_env ''/r/sub/g.pdf'' = ToolMissing \<and> PdfReader demo_env ''/r/sub/g.pdf'' = ReaderError PdfReadError"
    by (simp add: demo_env_def)
  have h4: "pdftotext demo_env ''/r/sub/d.PDF'' = ToolMissing \<and>
      PdfReader demo_env ''/r/sub/d.PDF'' = Pages [PageText ''hello world'', PageError PdfReadError] \<and>
      first_error [PageText ''hello world'', PageError PdfReadError] = Some PdfReadError"
    by (simp add: demo_env_def)
  have h5: "isdir tool_env ''/r''"
    by (simp add: tool_env_def demo_env_def)
  have files: "pdf_files (walk tool_env ''/r'') = [''/r/c.pdf'', ''/r/sub/d.PDF'', ''/r/sub/g.pdf'']"
    by code_simp
  have c: "pdf_try_block tool_env (literals ''hello world'') ''/r/c.pdf''
      = ([], [\<lparr>file_path = ''/r/c.pdf'', page_number = Some 0, line_number = 2, line_content = ''hello world''\<rparr>,
              \<lparr>file_path = ''/r/c.pdf'', page_number = Some 0, line_number = 4, line_content = ''Hello World''\<rparr>])"
    by code_simp
  note t1 = unreadable_pdf_is_soft [where env = tool_env and fp = "''/r/sub/d.PDF''" and phrase = "''hello world''"
      and e = "''exit status 1''" and folder = "''/r''"]
  note t2 = unreadable_pdf_is_soft [where env = tool_env and fp = "''/r/sub/g.pdf''" and phrase = "''hello world''"
      and e = "''Permission denied''" and folder = "''/r''"]
  note t3 = unreadable_pdf_is_soft [where env = demo_env and fp = "''/r/sub/g.pdf''" and phrase = "''hello world''"
      and pe = PdfReadError and folder = "''/r''"]
  note t4 = unreadable_pdf_is_soft [where env = demo_env and fp = "''/r/sub/d.PDF''" and phrase = "''hello world''"
      and pe = PdfReadError and folder = "''/r''" and ps = "[PageText ''hello world'', PageError PdfReadError]"]
  have r1: "search_single_pdf tool_env ''/r/sub/d.PDF'' ''hello world''
     = Inr ([ErrPdftotextFailed ''/r/sub/d.PDF'' ''exit status 1''], [])"
    using t1 h1 by simp
  have r2: "search_single_pdf tool_env ''/r/sub/g.pdf'' ''hello world''
     = Inr ([ErrPdfUnexpected ''/r/sub/g.pdf'' ''Permission denied''], [])"
    using t2 h2 by simp
  have r3: "search_single_pdf demo_env ''/r/sub/g.pdf'' ''hello world''
     = Inr ([WarnPdftotextMissing ''/r/sub/g.pdf'', WarnPdfUnreadable ''/r/sub/g.pdf''], [])"
    using t3 h3 by (simp add: pdf_error_message_def)
  have r4: "search_single_pdf demo_env ''/r/sub/d.PDF'' ''hello world''
     = Inr ([WarnPdftotextMissing ''/r/sub/d.PDF'', WarnPdfUnreadable ''/r/sub/d.PDF''],
            page_texts (literals ''hello world'') ''/r/sub/d.PDF'' [''hello world''])"
    using t4 h4 by (simp add: pdf_error_message_def)
  have p1: "pdf_try_block tool_env (literals ''hello world'') ''/r/sub/d.PDF'' = ([ErrPdftotextFailed ''/r/sub/d.PDF'' ''exit status 1''], [])"
    using t1 h1 by simp
  have p2: "pdf_try_block tool_env (literals ''hello world'') ''/r/sub/g.pdf'' = ([ErrPdfUnexpected ''/r/sub/g.pdf'' ''Permission denied''], [])"
    using t2 h2 by simp
  have r5: "worker_lines (search_pdfs tool_env ''/r'' ''hello world'')
     = {#ErrPdftotextFailed ''/r/sub/d.PDF'' ''exit status 1'', ErrPdfUnexpected ''/r/sub/g.pdf'' ''Permission denied''#}"
    using t1 h5 by (simp add: files c p1 p2)
  have r6: "map file_path (all_found (search_pdfs tool_env ''/r'' ''hello world'')) = [''/r/c.pdf'', ''/r/c.pdf'']"
    using t1 h5 by (simp add: files c p1 p2)
  from h1 h2 h3 h4 h5 r1 r2 r3 r4 r5 r6 show ?thesis by simp
qed

theorem unreadable_pdf_keeps_earlier_pages:
  "pdftotext demo_env ''/r/sub/d.PDF'' = ToolMissing \<and>
   PdfReader demo_env ''/r/sub/d.PDF'' = Pages [PageText ''hello world'', PageError PdfReadError] \<and>
   search_single_pdf demo_env ''/r/sub/d.PDF'' ''hello world''
     = Inr ([WarnPdftotextMissing ''/r/sub/d.PDF'', WarnPdfUnreadable ''/r/sub/d.PDF''],
            [\<lparr>file_path = ''/r/sub/d.PDF'', page_number = Some 1, line_number = 1, line_content = ''hello world''\<rparr>])"
  by code_simp

text \<open>
  C5 (as amended).  When the external tool is not installed, every PDF file is searched by
  the fallback parser, and the warning is written once for each PDF file processed: the
  warnings among the lines of the workers are, as a multiset, one for each file, and the
  main process writes none.
\<close>

theorem missing_tool_warns_per_file:
  assumes "isdir env folder" and "\<forall>fp. pdftotext env fp = ToolMissing"
  shows "filter_mset is_missing_warning (worker_lines (search_pdfs env folder phrase))
           = mset (map WarnPdftotextMissing (pdf_files (walk env folder))) \<and>
         size (filter_mset is_missing_warning (worker_lines (search_pdfs env folder phrase)))
           = length (pdf_files (walk env folder)) \<and>
         filter is_missing_warning (main_lines (search_pdfs env folder phrase)) = [] \<and>
         (\<forall>fp \<in> set (pdf_files (walk env folder)).
            search_single_pdf env fp phrase =
              Inr (WarnPdftotextMissing fp # fst (pypdf2_fallback env (literals phrase) fp),
                   snd (pypdf2_fallback env (literals phrase) fp)))"
proof -
  let ?fps = "pdf_files (walk env folder)"
  have per_file: "filter is_missing_warning (concat (map (\<lambda>fp. fst (pdf_try_block env (literals phrase) fp)) fps))
      = map WarnPdftotextMissing fps" for fps
    using assms(2) by (induction fps) (simp_all add: try_block_warnings)
  have "filter_mset is_missing_warning (worker_lines (search_pdfs env folder phrase))
      = mset (filter is_missing_warning (concat (map (\<lambda>fp. fst (pdf_try_block env (literals phrase) fp)) ?fps)))"
    using assms(1) by (simp add: search_pdfs_result)
  then have a: "filter_mset is_missing_warning (worker_lines (search_pdfs env folder phrase))
      = mset (map WarnPdftotextMissing ?fps)"
    by (simp only: per_file)
  have b: "filter is_missing_warning (main_lines (search_pdfs env folder phrase)) = []"
    using assms(1) by (rule search_pdfs_result)
  have c: "\<forall>fp \<in> set ?fps.
            search_single_pdf env fp phrase =
              Inr (WarnPdftotextMissing fp # fst (pypdf2_fallback env (literals phrase) fp),
                   snd (pypdf2_fallback env (literals phrase) fp))"
    using assms(2) by (simp add: search_single_pdf_try pdf_try_block_def Let_def)
  from a b c show ?thesis by simp
qed

theorem missing_tool_warns_per_file_witness:
  "isdir demo_env ''/r'' \<and> (\<forall>fp. pdftotext demo_env fp = ToolMissing) \<and>
   filter_mset is_missing_warning (worker_lines (search_pdfs demo_env ''/r'' ''hello world''))
     = {#WarnPdftotextMissing ''/r/c.pdf'', WarnPdftotextMissing ''/r/sub/d.PDF'', WarnPdftotextMissing ''/r/sub/g.pdf''#}"
proof -
  have h: "isdir demo_env ''/r''" "\<forall>fp. pdftotext demo_env fp = ToolMissing"
    by (simp_all add: demo_env_def)
  have files: "pdf_files (walk demo_env ''/r'') = [''/r/c.pdf'', ''/r/sub/d.PDF'', ''/r/sub/g.pdf'']"
    by code_simp
  from missing_tool_warns_per_file [OF h, of "''hello world''"] h files show ?thesis by simp
qed

theorem missing_tool_warns_three_times:
  "size (filter_mset is_missing_warning (worker_lines (search_pdfs demo_env ''/r'' ''hello world''))) = 3"
proof -
  have dir: "isdir demo_env ''/r''"
    by (simp add: demo_env_def)
  have files: "pdf_files (walk demo_env ''/r'') = [''/r/c.pdf'', ''/r/sub/d.PDF'', ''/r/sub/g.pdf'']"
    by code_simp
  have missing: "pdftotext demo_env fp = ToolMissing" for fp
    by (simp add: demo_env_def)
  show ?thesis
    by (simp add: search_pdfs_result [OF dir] files try_block_warnings missing flip: mset_filter)
qed

section \<open>Enumeration, read errors and the occurrence invariant\<close>

text \<open>
  C6.  On one walk of the tree, the counting pass counts exactly the files the streaming pass
  processes: both are the files of \<open>selected_files\<close>, so the total shown before the search is
  the final value of the counter of processed files, and the occurrences found are those of
  these files, in order.
\<close>

theorem passes_select_same_files:
  "count_files exts w = length (selected_files exts w) \<and>
   processed_files_count (second_pass env pattern exts (count_files exts w) w) = count_files exts w \<and>
   found_occurrences (second_pass env pattern exts (count_files exts w) w)
     = concat (map (\<lambda>fp. fst (read_text_file pattern fp (open_text env fp))) (selected_files exts w))"
  by (simp add: count_files_selected second_pass_fields)

theorem passes_select_same_files_witness:
  "selected_files [''.txt'', ''.md'', ''.log''] (walk demo_env ''/r'')
     = [''/r/a.txt'', ''/r/b.md'', ''/r/sub/e.txt'', ''/r/sub/f.log''] \<and>
   count_files [''.txt'', ''.md'', ''.log''] (walk demo_env ''/r'') = 4 \<and>
   processed_files_count
     (second_pass demo_env (literals ''hello world'') [''.txt'', ''.md'', ''.log'']
        (count_files [''.txt'', ''.md'', ''.log''] (walk demo_env ''/r'')) (walk demo_env ''/r'')) = 4"
proof -
  have sel: "selected_files [''.txt'', ''.md'', ''.log''] (walk demo_env ''/r'')
     = [''/r/a.txt'', ''/r/b.md'', ''/r/sub/e.txt'', ''/r/sub/f.log'']"
    by code_simp
  note t = passes_select_same_files [of "[''.txt'', ''.md'', ''.log'']" "walk demo_env ''/r''" demo_env
      "literals ''hello world''"]
  from t have c: "count_files [''.txt'', ''.md'', ''.log''] (walk demo_env ''/r'') = 4"
    unfolding sel by simp
  from t have "processed_files_count
     (second_pass demo_env (literals ''hello world'') [''.txt'', ''.md'', ''.log'']
        (count_files [''.txt'', ''.md'', ''.log''] (walk demo_env ''/r'')) (walk demo_env ''/r''))
      = count_files [''.txt'', ''.md'', ''.log''] (walk demo_env ''/r'')"
    by blast
  also note c
  finally show ?thesis using sel c by blast
qed

lemma read_text_file_cases:
  "read_text_file pattern fp (OpenError e) = ([], [ErrReading fp e])"
  "read_text_file pattern fp (Content ls None) = (scan_lines pattern fp 1 ls, [])"
  "read_text_file pattern fp (Content ls (Some e)) = (scan_lines pattern fp 1 ls, [ErrReading fp e])"
  by (simp_all add: read_text_file_def)

text \<open>
  C9 (as amended).  A text file on which an error is raised contributes the occurrences of
  the lines read before the error, none when the error is raised on opening the file; the
  error is written as a diagnostic and not raised; and the result of the pipeline is the
  concatenation of what each selected file contributes, so the remaining files are searched.
\<close>

theorem text_read_error_is_soft:
  "(isdir env folder \<longrightarrow>
      (\<exists>out. search_text_files env folder sentence exts
                = Inr (out, concat (map (\<lambda>fp. fst (read_text_file (literals sentence) fp (open_text env fp)))
                                     (selected_files exts (walk env folder)))) \<and>
             filter is_read_error out
                = concat (map (\<lambda>fp. snd (read_text_file (literals sentence) fp (open_text env fp)))
                            (selected_files exts (walk env folder))))) \<and>
   (open_text env fp = OpenError e \<longrightarrow>
      read_text_file (literals sentence) fp (open_text env fp) = ([], [ErrReading fp e])) \<and>
   (open_text env fp = Content ls (Some e) \<longrightarrow>
      read_text_file (literals sentence) fp (open_text env fp)
        = (scan_lines (literals sentence) fp 1 ls, [ErrReading fp e]))"
  using search_text_files_result [of env folder sentence exts]
  by (simp add: read_text_file_cases)

theorem text_read_error_is_soft_witness:
  "isdir demo_env ''/r'' \<and>
   open_text demo_env ''/r/sub/f.log'' = OpenError ''Permission denied'' \<and>
   open_text demo_env ''/r/sub/e.txt'' = Content [''hello world'' @ [LF]] (Some ''Input/output error'') \<and>
   read_text_file (literals ''hello world'') ''/r/sub/f.log'' (open_text demo_env ''/r/sub/f.log'')
     = ([], [ErrReading ''/r/sub/f.log'' ''Permission denied'']) \<and>
   read_text_file (literals ''hello world'') ''/r/sub/e.txt'' (open_text demo_env ''/r/sub/e.txt'')
     = (scan_lines (literals ''hello world'') ''/r/sub/e.txt'' 1 [''hello world'' @ [LF]],
        [ErrReading ''/r/sub/e.txt'' ''Input/output error'']) \<and>
   (\<exists>out. search_text_files demo_env ''/r'' ''hello world'' [''.txt'', ''.log'']
            = Inr (out, [\<lparr>file_path = ''/r/a.txt'', page_number = None, line_number = 2, line_content = ''Hello World''\<rparr>,
                         \<lparr>file_path = ''/r/sub/e.txt'', page_number = None, line_number = 1, line_content = ''hello world''\<rparr>]) \<and>
          filter is_read_error out
            = [ErrReading ''/r/sub/e.txt'' ''Input/output error'', ErrReading ''/r/sub/f.log'' ''Permission denied''])"
proof -
  have h1: "isdir demo_env ''/r''"
    by (simp add: demo_env_def)
  have h2: "open_text demo_env ''/r/sub/f.log'' = OpenError ''Permission denied''"
    by (simp add: demo_env_def)
  have h3: "open_text demo_env ''/r/sub/e.txt'' = Content [''hello world'' @ [LF]] (Some ''Input/output error'')"
    by (simp add: demo_env_def)
  have occs: "concat (map (\<lambda>fp. fst (read_text_file (literals ''hello world'') fp (open_text demo_env fp)))
                 (selected_files [''.txt'', ''.log''] (walk demo_env ''/r'')))
      = [\<lparr>file_path = ''/r/a.txt'', page_number = None, line_number = 2, line_content = ''Hello World''\<rparr>,
         \<lparr>file_path = ''/r/sub/e.txt'', page_number = None, line_number = 1, line_content = ''hello world''\<rparr>]"
    by code_simp
  have errs: "concat (map (\<lambda>fp. snd (read_text_file (literals ''hello world'') fp (open_text demo_env fp)))
                 (selected_files [''.txt'', ''.log''] (walk demo_env ''/r'')))
      = [ErrReading ''/r/sub/e.txt'' ''Input/output error'', ErrReading ''/r/sub/f.log'' ''Permission denied'']"
    by code_simp
  note a = text_read_error_is_soft [where env = demo_env and folder = "''/r''" and sentence = "''hello world''"
      and exts = "[''.txt'', ''.log'']" and fp = "''/r/sub/f.log''" and e = "''Permission denied''"]
  note b = text_read_error_is_soft [where env = demo_env and folder = "''/r''" and sentence = "''hello world''"
      and exts = "[''.txt'', ''.log'']" and fp = "''/r/sub/e.txt''" and e = "''Input/output error''"
      and ls = "[''hello world'' @ [LF]]"]
  have r1: "read_text_file (literals ''hello world'') ''/r/sub/f.log'' (open_text demo_env ''/r/sub/f.log'')
     = ([], [ErrReading ''/r/sub/f.log'' ''Permission denied''])"
    using a h2 by blast
  have r2: "read_text_file (literals ''hello world'') ''/r/sub/e.txt'' (open_text demo_env ''/r/sub/e.txt'')
     = (scan_lines (literals ''hello world'') ''/r/sub/e.txt'' 1 [''hello world'' @ [LF]],
        [ErrReading ''/r/sub/e.txt'' ''Input/output error''])"
    using b h3 by blast
  have r3: "\<exists>out. search_text_files demo_env ''/r'' ''hello world'' [''.txt'', ''.log'']
            = Inr (out, [\<lparr>file_path = ''/r/a.txt'', page_number = None, line_number = 2, line_content = ''Hello World''\<rparr>,
                         \<lparr>file_path = ''/r/sub/e.txt'', page_number = None, line_number = 1, line_content = ''hello world''\<rparr>]) \<and>
          filter is_read_error out
            = [ErrReading ''/r/sub/e.txt'' ''Input/output error'', ErrReading ''/r/sub/f.log'' ''Permission denied'']"
    using a h1 unfolding occs errs by blast
  from h1 h2 h3 r1 r2 r3 show ?thesis by blast
qed

theorem text_read_error_keeps_earlier_lines:
  "open_text demo_env ''/r/sub/e.txt'' = Content [''hello world'' @ [LF]] (Some ''Input/output error'') \<and>
   search_text_files demo_env ''/r'' ''hello world'' [''.txt'']
     = Inr ([MsgSearchingText ''hello world'' [''.txt''] ''/r'', MsgCountingFiles, MsgFoundFiles 2,
             MsgProgress 1 2 ''a.txt'', MsgProgress 2 2 ''e.txt'',
             ErrReading ''/r/sub/e.txt'' ''Input/output error'', MsgNewline],
            [\<lparr>file_path = ''/r/a.txt'', page_number = None, line_number = 2, line_content = ''Hello World''\<rparr>,
             \<lparr>file_path = ''/r/sub/e.txt'', page_number = None, line_number = 1, line_content = ''hello world''\<rparr>])"
  by code_simp

lemma read_text_file_occurrences:
  "fst (read_text_file pattern fp src) =
     (case src of OpenError e \<Rightarrow> [] | Content ls r \<Rightarrow> scan_lines pattern fp 1 ls)"
  by (simp add: read_text_file_def split: text_source.splits option.splits)

lemma read_text_file_member:
  assumes "x \<in> set (fst (read_text_file pattern fp src))"
  shows "file_path x = fp \<and> 1 \<le> line_number x"
proof (cases src)
  case (OpenError e)
  then show ?thesis using assms by (simp add: read_text_file_occurrences)
next
  case (Content ls r)
  then have "x \<in> set (scan_lines pattern fp 1 ls)"
    using assms by (simp add: read_text_file_occurrences)
  from scan_lines_member [OF this] show ?thesis by simp
qed

lemma read_text_file_increasing:
  "sorted_wrt (<) (map line_number (fst (read_text_file pattern fp src)))"
  by (cases src) (simp_all add: read_text_file_occurrences scan_lines_increasing)

lemma text_results_member:
  assumes "search_text_files env folder sentence exts = Inr (out, occs)" and "x \<in> set occs"
  shows "file_path x \<in> set (selected_files exts (walk env folder)) \<and> 1 \<le> line_number x"
proof (cases "isdir env folder")
  case False
  then show ?thesis using assms by (simp add: search_text_files_no_dir)
next
  case True
  from search_text_files_result [OF True, of sentence exts] assms(1)
  have "occs = concat (map (\<lambda>fp. fst (read_text_file (literals sentence) fp (open_text env fp)))
                         (selected_files exts (walk env folder)))"
    by auto
  with assms(2) obtain fp where fp: "fp \<in> set (selected_files exts (walk env folder))"
      and x: "x \<in> set (fst (read_text_file (literals sentence) fp (open_text env fp)))"
    by auto
  from read_text_file_member [OF x] fp show ?thesis by simp
qed

lemma pdf_results_member:
  assumes "x \<in> set (all_found (search_pdfs env folder phrase))"
  shows "file_path x \<in> set (pdf_files (walk env folder)) \<and> 1 \<le> line_number x"
proof (cases "isdir env folder")
  case False
  then show ?thesis using assms by (simp add: search_pdfs_no_dir all_found_def)
next
  case True
  from search_pdfs_result(1) [OF True, of phrase] assms
  obtain fp where fp: "fp \<in> set (pdf_files (walk env folder))"
      and x: "x \<in> set (snd (pdf_try_block env (literals phrase) fp))"
    by auto
  from pdf_try_block_member [OF x] fp show ?thesis by simp
qed

lemma tool_output_increasing:
  "pdftotext env fp = ToolOutput body \<Longrightarrow>
   sorted_wrt (<) (map line_number (snd (pdf_try_block env pattern fp)))"
  by (simp add: pdf_try_block_def scan_pdf_lines_increasing)

lemma code_lower_char:
  "code (lower_char a) =
     (if (65 \<le> code a \<and> code a \<le> 90) \<or> (192 \<le> code a \<and> code a \<le> 222 \<and> code a \<noteq> 215)
      then code a + 32 else code a)"
  by (auto simp: lower_char_def code_def)

lemma code_inject: "code a = code b \<Longrightarrow> a = b"
  by (simp add: code_def)

lemma lower_char_dot: "lower_char a = CHR ''.'' \<Longrightarrow> a = CHR ''.''"
proof -
  assume "lower_char a = CHR ''.''"
  then have "code (lower_char a) = code CHR ''.''" by simp
  then have "code a = code CHR ''.''"
    by (simp add: code_lower_char split: if_splits) (simp_all add: code_def)
  then show ?thesis by (rule code_inject)
qed

lemma lower_char_letter:
  assumes "lower_char b = c" and "c \<noteq> CHR ''.''" and "c \<noteq> CHR ''/''"
  shows "b \<noteq> CHR ''.'' \<and> b \<noteq> CHR ''/''"
proof -
  have "lower_char CHR ''.'' = CHR ''.''" "lower_char CHR ''/'' = CHR ''/''"
    by (simp_all add: lower_char_def code_def)
  with assms show ?thesis by auto
qed

lemma endswith_split:
  assumes "endswith s [w, x, y, z]"
  shows "\<exists>pre. s = pre @ [w, x, y, z]"
proof -
  from assms have "drop (length s - length [w, x, y, z]) s = [w, x, y, z]"
    unfolding endswith_def by blast
  then have "s = take (length s - length [w, x, y, z]) s @ [w, x, y, z]"
    by (metis append_take_drop_id)
  then show ?thesis by blast
qed

lemma splitext_suffix:
  assumes b: "b \<noteq> CHR ''.''" "b \<noteq> CHR ''/''" and c: "c \<noteq> CHR ''.''" "c \<noteq> CHR ''/''"
    and d: "d \<noteq> CHR ''.''" "d \<noteq> CHR ''/''"
  shows "snd (splitext (pre @ [CHR ''.'', b, c, d])) = [] \<or>
         snd (splitext (pre @ [CHR ''.'', b, c, d])) = [CHR ''.'', b, c, d]"
proof -
  let ?b0 = "rev (takeWhile (\<lambda>c. c \<noteq> CHR ''/'') (rev pre))"
  have base: "rev (takeWhile (\<lambda>c. c \<noteq> CHR ''/'') (rev (pre @ [CHR ''.'', b, c, d]))) = ?b0 @ [CHR ''.'', b, c, d]"
    using b c d by simp
  show ?thesis
  proof (cases "\<forall>x \<in> set ?b0. x = CHR ''.''")
    case True
    then have "dropWhile (\<lambda>c. c = CHR ''.'') (?b0 @ [CHR ''.'', b, c, d])
        = dropWhile (\<lambda>c. c = CHR ''.'') [CHR ''.'', b, c, d]"
      by (intro dropWhile_append2) auto
    then have "dropWhile (\<lambda>c. c = CHR ''.'') (?b0 @ [CHR ''.'', b, c, d]) = [b, c, d]"
      using b by simp
    then have "snd (splitext (pre @ [CHR ''.'', b, c, d])) = []"
      using b c d unfolding splitext_def base by (simp add: Let_def)
    then show ?thesis by simp
  next
    case False
    then obtain x where "x \<in> set ?b0" and "\<not> x = CHR ''.''"
      by blast
    then have "dropWhile (\<lambda>c. c = CHR ''.'') (?b0 @ [CHR ''.'', b, c, d])
        = dropWhile (\<lambda>c. c = CHR ''.'') ?b0 @ [CHR ''.'', b, c, d]"
      by (rule dropWhile_append1)
    then have "snd (splitext (pre @ [CHR ''.'', b, c, d])) = [CHR ''.'', b, c, d]"
      using b c d unfolding splitext_def base by (simp add: Let_def)
    then show ?thesis by simp
  qed
qed

lemma pdf_suffix_extension:
  assumes "endswith (lower name) ''.pdf''"
  shows "snd (splitext name) = [] \<or> lower (snd (splitext name)) = ''.pdf''"
proof -
  from endswith_split [OF assms] obtain lpre where l: "lower name = lpre @ ''.pdf''"
    by auto
  then obtain pre a b c d where n: "name = pre @ [a, b, c, d]"
      and ch: "lower_char a = CHR ''.''" "lower_char b = CHR ''p''" "lower_char c = CHR ''d''" "lower_char d = CHR ''f''"
    by (auto simp: lower_def map_eq_append_conv)
  have a: "a = CHR ''.''"
    using ch(1) by (rule lower_char_dot)
  have nb: "b \<noteq> CHR ''.'' \<and> b \<noteq> CHR ''/''" and nc: "c \<noteq> CHR ''.'' \<and> c \<noteq> CHR ''/''"
    and nd: "d \<noteq> CHR ''.'' \<and> d \<noteq> CHR ''/''"
    using ch by (auto dest: lower_char_letter)
  from splitext_suffix [of b c d pre] nb nc nd
  have "snd (splitext name) = [] \<or> snd (splitext name) = [CHR ''.'', b, c, d]"
    by (simp add: n a)
  then show ?thesis
    using ch by (auto simp: lower_def lower_char_def code_def)
qed

lemma pdf_files_member:
  "fp \<in> set (pdf_files w) \<longleftrightarrow>
     (\<exists>root files name. (root, files) \<in> set w \<and> name \<in> set files \<and> fp = join root name \<and>
        endswith (lower name) ''.pdf'')"
  by (auto simp: pdf_files_def)

text \<open>
  C8 (as amended).  The file path of every occurrence of a run is a path the enumerator of
  its pipeline emitted for that run: for the text pipeline a file of the walk whose
  lower-cased extension is in the filter; for the PDF pipeline a file of the walk whose
  lower-cased name ends in \<open>.pdf\<close>, which has the extension \<open>.pdf\<close> or has no extension at
  all.  Its line number is at least 1.  Within the scan of one file the line numbers do not
  decrease in a text file, in a PDF read by the external tool, and within each page of a
  PDF read by the fallback parser; there the pairs (page number, line number) do not
  decrease.
\<close>

theorem occurrence_invariant:
  "(search_text_files env folder sentence exts = Inr (out, occs) \<and> x \<in> set occs \<longrightarrow>
      file_path x \<in> set (selected_files exts (walk env folder)) \<and> 1 \<le> line_number x) \<and>
   (y \<in> set (all_found (search_pdfs env folder sentence)) \<longrightarrow>
      file_path y \<in> set (pdf_files (walk env folder)) \<and> 1 \<le> line_number y) \<and>
   (q \<in> set (pdf_files w) \<longrightarrow>
      (\<exists>root files name. (root, files) \<in> set w \<and> name \<in> set files \<and> q = join root name \<and>
         endswith (lower name) ''.pdf'' \<and>
         (snd (splitext name) = [] \<or> lower (snd (splitext name)) = ''.pdf''))) \<and>
   sorted (map line_number (fst (read_text_file (literals sentence) fp src))) \<and>
   sorted (map (\<lambda>z. (page_or_zero z, line_number z)) (snd (pdf_try_block env (literals sentence) fp))) \<and>
   (pdftotext env fp = ToolOutput body \<longrightarrow>
      sorted (map line_number (snd (pdf_try_block env (literals sentence) fp)))) \<and>
   sorted (map line_number (scan_pdf_lines (literals sentence) fp pg 1 ls))"
proof (intro conjI impI)
  assume "search_text_files env folder sentence exts = Inr (out, occs) \<and> x \<in> set occs"
  then show "file_path x \<in> set (selected_files exts (walk env folder))" "1 \<le> line_number x"
    using text_results_member [of env folder sentence exts out occs x] by simp_all
next
  assume "y \<in> set (all_found (search_pdfs env folder sentence))"
  then show "file_path y \<in> set (pdf_files (walk env folder))" "1 \<le> line_number y"
    using pdf_results_member [of y env folder sentence] by simp_all
next
  assume "q \<in> set (pdf_files w)"
  then obtain root files name where n: "(root, files) \<in> set w" "name \<in> set files" "q = join root name"
      "endswith (lower name) ''.pdf''"
    unfolding pdf_files_member by blast
  from pdf_suffix_extension [OF n(4)] n
  show "\<exists>root files name. (root, files) \<in> set w \<and> name \<in> set files \<and> q = join root name \<and>
         endswith (lower name) ''.pdf'' \<and>
         (snd (splitext name) = [] \<or> lower (snd (splitext name)) = ''.pdf'')"
    by blast
next
  show "sorted (map line_number (fst (read_text_file (literals sentence) fp src)))"
    by (rule strict_sorted_imp_sorted) (rule read_text_file_increasing)
next
  show "sorted (map (\<lambda>z. (page_or_zero z, line_number z)) (snd (pdf_try_block env (literals sentence) fp)))"
    by (rule strict_sorted_imp_sorted) (rule pdf_try_block_ordered)
next
  assume "pdftotext env fp = ToolOutput body"
  then show "sorted (map line_number (snd (pdf_try_block env (literals sentence) fp)))"
    by (intro strict_sorted_imp_sorted tool_output_increasing)
next
  show "sorted (map line_number (scan_pdf_lines (literals sentence) fp pg 1 ls))"
    by (rule strict_sorted_imp_sorted) (rule scan_pdf_lines_increasing)
qed

theorem occurrence_invariant_witness:
  "search_text_files demo_env ''/r'' ''hello world'' [''.txt'']
     = Inr ([MsgSearchingText ''hello world'' [''.txt''] ''/r'', MsgCountingFiles, MsgFoundFiles 2,
             MsgProgress 1 2 ''a.txt'', MsgProgress 2 2 ''e.txt'',
             ErrReading ''/r/sub/e.txt'' ''Input/output error'', MsgNewline],
            [\<lparr>file_path = ''/r/a.txt'', page_number = None, line_number = 2, line_content = ''Hello World''\<rparr>,
             \<lparr>file_path = ''/r/sub/e.txt'', page_number = None, line_number = 1, line_content = ''hello world''\<rparr>]) \<and>
   ''/r/a.txt'' \<in> set (selected_files [''.txt''] (walk demo_env ''/r'')) \<and>
   \<lparr>file_path = ''/r/c.pdf'', page_number = Some 2, line_number = 1, line_content = ''Hello World''\<rparr>
     \<in> set (all_found (search_pdfs demo_env ''/r'' ''hello world'')) \<and>
   ''/r/c.pdf'' \<in> set (pdf_files (walk demo_env ''/r'')) \<and>
   (\<exists>root files name. (root, files) \<in> set (walk demo_env ''/r'') \<and> name \<in> set files \<and>
      ''/r/c.pdf'' = join root name \<and> endswith (lower name) ''.pdf'' \<and>
      (snd (splitext name) = [] \<or> lower (snd (splitext name)) = ''.pdf'')) \<and>
   pdftotext tool_env ''/r/c.pdf'' = ToolOutput (''a'' @ [LF] @ ''hello world'' @ [LF, FF] @ ''Hello World'' @ [LF]) \<and>
   sorted (map line_number (snd (pdf_try_block tool_env (literals ''hello world'') ''/r/c.pdf'')))"
proof -
  let ?a = "\<lparr>file_path = ''/r/a.txt'', page_number = None, line_number = 2, line_content = ''Hello World''\<rparr>"
  let ?e = "\<lparr>file_path = ''/r/sub/e.txt'', page_number = None, line_number = 1, line_content = ''hello world''\<rparr>"
  let ?c = "\<lparr>file_path = ''/r/c.pdf'', page_number = Some 2, line_number = 1, line_content = ''Hello World''\<rparr>"
  let ?out = "[MsgSearchingText ''hello world'' [''.txt''] ''/r'', MsgCountingFiles, MsgFoundFiles 2,
             MsgProgress 1 2 ''a.txt'', MsgProgress 2 2 ''e.txt'',
             ErrReading ''/r/sub/e.txt'' ''Input/output error'', MsgNewline]"
  have run: "search_text_files demo_env ''/r'' ''hello world'' [''.txt''] = Inr (?out, [?a, ?e])"
    by code_simp
  have pdf: "all_found (search_pdfs demo_env ''/r'' ''hello world'')
      = [\<lparr>file_path = ''/r/c.pdf'', page_number = Some 1, line_number = 4, line_content = ''hello world order''\<rparr>,
         ?c,
         \<lparr>file_path = ''/r/sub/d.PDF'', page_number = Some 1, line_number = 1, line_content = ''hello world''\<rparr>]"
    by code_simp
  have tool: "pdftotext tool_env ''/r/c.pdf'' = ToolOutput (''a'' @ [LF] @ ''hello world'' @ [LF, FF] @ ''Hello World'' @ [LF])"
    by (simp add: tool_env_def)
  note t = occurrence_invariant [where env = demo_env and folder = "''/r''" and sentence = "''hello world''"
      and exts = "[''.txt'']" and out = ?out and occs = "[?a, ?e]" and x = ?a and y = ?c
      and q = "''/r/c.pdf''" and w = "walk demo_env ''/r''"]
  note u = occurrence_invariant [where env = tool_env and sentence = "''hello world''" and fp = "''/r/c.pdf''"
      and body = "''a'' @ [LF] @ ''hello world'' @ [LF, FF] @ ''Hello World'' @ [LF]"]
  have r1: "''/r/a.txt'' \<in> set (selected_files [''.txt''] (walk demo_env ''/r''))"
    using t run by simp
  have in_pdf: "?c \<in> set (all_found (search_pdfs demo_env ''/r'' ''hello world''))"
    unfolding pdf by simp
  have r2: "''/r/c.pdf'' \<in> set (pdf_files (walk demo_env ''/r''))"
    using t in_pdf by simp
  have r3: "\<exists>root files name. (root, files) \<in> set (walk demo_env ''/r'') \<and> name \<in> set files \<and>
      ''/r/c.pdf'' = join root name \<and> endswith (lower name) ''.pdf'' \<and>
      (snd (splitext name) = [] \<or> lower (snd (splitext name)) = ''.pdf'')"
    using t r2 by blast
  have r4: "sorted (map line_number (snd (pdf_try_block tool_env (literals ''hello world'') ''/r/c.pdf'')))"
    using u tool by blast
  from run r1 in_pdf r2 r3 tool r4 show ?thesis by blast
qed

theorem line_numbers_restart_and_dotfile_searched:
  "search_single_pdf demo_env ''/r/c.pdf'' ''hello world''
     = Inr ([WarnPdftotextMissing ''/r/c.pdf''],
            [\<lparr>file_path = ''/r/c.pdf'', page_number = Some 1, line_number = 4, line_content = ''hello world order''\<rparr>,
             \<lparr>file_path = ''/r/c.pdf'', page_number = Some 2, line_number = 1, line_content = ''Hello World''\<rparr>]) \<and>
   \<not> sorted (map line_number
            [\<lparr>file_path = ''/r/c.pdf'', page_number = Some 1, line_number = 4, line_content = ''hello world order''\<rparr>,
             \<lparr>file_path = ''/r/c.pdf'', page_number = Some 2, line_number = 1, line_content = ''Hello World''\<rparr>]) \<and>
   walk dotfile_env ''/r'' = [(''/r'', [''.pdf''])] \<and>
   splitext ''.pdf'' = (''.pdf'', []) \<and>
   selected_files extensions (walk dotfile_env ''/r'') = [] \<and>
   all_found (search_pdfs dotfile_env ''/r'' ''hello world'')
     = [\<lparr>file_path = ''/r/.pdf'', page_number = Some 1, line_number = 1, line_content = ''hello world''\<rparr>]"
proof -
  have a: "search_single_pdf demo_env ''/r/c.pdf'' ''hello world''
     = Inr ([WarnPdftotextMissing ''/r/c.pdf''],
            [\<lparr>file_path = ''/r/c.pdf'', page_number = Some 1, line_number = 4, line_content = ''hello world order''\<rparr>,
             \<lparr>file_path = ''/r/c.pdf'', page_number = Some 2, line_number = 1, line_content = ''Hello World''\<rparr>])"
    by code_simp
  have b: "walk dotfile_env ''/r'' = [(''/r'', [''.pdf''])]"
    by (simp add: dotfile_env_def)
  have c: "splitext ''.pdf'' = (''.pdf'', [])"
    by code_simp
  have d: "selected_files extensions (walk dotfile_env ''/r'') = []"
    by code_simp
  have e: "all_found (search_pdfs dotfile_env ''/r'' ''hello world'')
     = [\<lparr>file_path = ''/r/.pdf'', page_number = Some 1, line_number = 1, line_content = ''hello world''\<rparr>]"
    by code_simp
  from a b c d e show ?thesis by simp
qed

section \<open>Properties of the main program\<close>

lemma strip_blank:
  assumes "\<forall>c \<in> set s. is_space c"
  shows "strip s = []"
proof -
  have blank: "dropWhile is_space s = []"
    using assms by simp
  show ?thesis
    unfolding strip_def blank by simp
qed

text \<open>
  C10.  A phrase that is not empty and consists of whitespace characters only is rejected
  as an empty phrase: the program prints the error and nothing else, so neither search
  function is called.
\<close>

theorem blank_phrase_is_rejected:
  "sentence \<noteq> [] \<Longrightarrow> \<forall>c \<in> set sentence. is_space c \<Longrightarrow>
   main env sentence folder = Inr ([ErrEmptySentence], {#})"
  by (simp add: main_def strip_blank)

theorem blank_phrase_is_rejected_witness:
  "'' '' \<noteq> [] \<and> is_space (CHR '' '') \<and> main demo_env '' '' ''/r'' = Inr ([ErrEmptySentence], {#})"
proof -
  have h: "'' '' \<noteq> []" "\<forall>c \<in> set '' ''. is_space c"
    by (simp_all add: is_space_def code_def)
  from blank_phrase_is_rejected [OF h, of demo_env "''/r''"] h show ?thesis by simp
qed

lemma report_summary:
  "report [] = [MsgNoMatches]"
  "all_results \<noteq> [] \<Longrightarrow> last (report all_results) = MsgSummary (length all_results)"
  "all_results \<noteq> [] \<Longrightarrow> length (report all_results) = length all_results + 2"
  by (simp_all add: report_def sort_results_def)

lemma hyperlink_path_only: "file_path a = file_path b \<Longrightarrow> hyperlink a = hyperlink b"
  by (simp add: hyperlink_def)

text \<open>
  C7.  The report of one occurrence found on page 3, line 2 of a file: the line printed for
  it holds the encoded path and the coloured path, and neither the line nor the page.
\<close>

theorem report_line_without_location:
  "report [\<lparr>file_path = ''/r/c.pdf'', page_number = Some 3, line_number = 2, line_content = ''Hello World''\<rparr>]
     = [MsgResultsHeader,
        MsgItem ([ESC] @ '']8;;file:///r/c.pdf'' @ [ESC, backslash, ESC] @ ''[33m/r/c.pdf'' @ [ESC] @ ''[0m''
                   @ [ESC] @ '']8;;'' @ [ESC, backslash]),
        MsgSummary 1]"
  by code_simp

end
